theory Spec2Isabelle
  imports Main "HOL-Library.Sublist"
begin

section \<open>Strings, numbers and thrown values\<close>

text \<open>
  A JavaScript string is a sequence of UTF-16 code units; it is modelled as the list of
  its code units. \<open>js\<close> embeds an ASCII literal.
\<close>

type_synonym js_string = "nat list"

definition js :: "string \<Rightarrow> js_string" where
  "js s = map of_char s"

text \<open>The decimal rendering of a number inside a template literal (\<open>`${n}`\<close>).\<close>

definition digit :: "nat \<Rightarrow> nat" where
  "digit d = 48 + d"

fun string_of_nat :: "nat \<Rightarrow> js_string" where
  "string_of_nat n =
     (if n < 10 then [digit n] else string_of_nat (n div 10) @ [digit (n mod 10)])"

text \<open>
  What a \<open>throw\<close> carries: \<open>new Error(message)\<close>, or \<open>undefined\<close> (an unset
  \<open>lastError\<close>). A computation that may throw returns \<open>thrown + 'a\<close>.
\<close>

datatype thrown = Undefined | Error js_string

section \<open>The retrying HTTP wrapper (services/ai.ts, netlify/functions/ai-utils.ts)\<close>

text \<open>
  Only the status of a \<open>Response\<close> and its body matter here. \<open>fetch\<close> either rejects
  (a network failure) or resolves to a response. The backend is given as the outcome of
  the \<open>k\<close>-th call of \<open>fetch\<close> made by the wrapper.
\<close>

record response =
  status :: nat
  body :: js_string

datatype fetch_outcome = Rejects js_string | Resolves response

text \<open>The effects of one call of the wrapper: the calls of \<open>fetch\<close> made and the delays
  (milliseconds handed to \<open>setTimeout\<close>) awaited, in order.\<close>

record retry_run =
  returned :: "thrown + response"
  fetches :: nat
  delays :: "nat list"

text \<open>The body of the \<open>try\<close> block: a status of 500 or more, or 429, is thrown.\<close>

definition retryable :: "response \<Rightarrow> bool" where
  "retryable r \<longleftrightarrow> status r \<ge> 500 \<or> status r = 429"

definition try_fetch :: "fetch_outcome \<Rightarrow> thrown + response" where
  "try_fetch out =
     (case out of
        Rejects m \<Rightarrow> Inl (Error m)
      | Resolves r \<Rightarrow>
          if retryable r then Inl (Error (js ''Server status: '' @ string_of_nat (status r)))
          else Inr r)"

text \<open>
  The loop \<open>for (let i = 0; i <= retries; i++)\<close>, with \<open>lastError\<close> and the delays
  awaited so far as accumulators. Each iteration calls \<open>fetch\<close> once, so the number of
  calls on leaving the loop is \<open>i + 1\<close> on a return and \<open>i\<close> on exhaustion.
\<close>

function retry_loop ::
  "(nat \<Rightarrow> fetch_outcome) \<Rightarrow> nat \<Rightarrow> nat \<Rightarrow> thrown \<Rightarrow> nat list \<Rightarrow> retry_run" where
  "retry_loop fetch retries i lastError ds =
     (if i \<le> retries then
        (case try_fetch (fetch i) of
           Inr r \<Rightarrow> \<lparr>returned = Inr r, fetches = Suc i, delays = ds\<rparr>
         | Inl e \<Rightarrow>
             retry_loop fetch retries (Suc i) e
               (if i < retries then ds @ [1000 * 2 ^ i] else ds))
      else \<lparr>returned = Inl lastError, fetches = i, delays = ds\<rparr>)"
  by pat_completeness auto
termination
  by (relation "measure (\<lambda>(fetch, retries, i, lastError, ds). Suc retries - i)") auto

definition fetchWithRetry :: "(nat \<Rightarrow> fetch_outcome) \<Rightarrow> nat \<Rightarrow> retry_run" where
  "fetchWithRetry fetch retries = retry_loop fetch retries 0 Undefined []"


section \<open>Whitespace and trimming\<close>

text \<open>
  The code units \<open>String.prototype.trim\<close> removes (ECMAScript WhiteSpace and
  LineTerminator), and the ones the regular-expression dot does not match
  (LineTerminator).
\<close>

definition isWhiteSpace :: "nat \<Rightarrow> bool" where
  "isWhiteSpace c \<longleftrightarrow>
     (9 \<le> c \<and> c \<le> 13) \<or> c = 32 \<or> c = 160 \<or> c = 5760 \<or> (8192 \<le> c \<and> c \<le> 8202) \<or>
     c = 8232 \<or> c = 8233 \<or> c = 8239 \<or> c = 8287 \<or> c = 12288 \<or> c = 65279"

definition isLineTerminator :: "nat \<Rightarrow> bool" where
  "isLineTerminator c \<longleftrightarrow> c = 10 \<or> c = 13 \<or> c = 8232 \<or> c = 8233"

definition trim :: "js_string \<Rightarrow> js_string" where
  "trim s = rev (dropWhile isWhiteSpace (rev (dropWhile isWhiteSpace s)))"

text \<open>\<open>Array.prototype.join\<close> on strings.\<close>

fun join :: "js_string \<Rightarrow> js_string list \<Rightarrow> js_string" where
  "join sep [] = []"
| "join sep [x] = x"
| "join sep (x # y # ys) = x @ sep @ join sep (y # ys)"

section \<open>Deadlines (services/ai.ts, withTimeout)\<close>

text \<open>
  A promise is described by when it settles, in milliseconds after it was created, and
  how: rejected with an \<open>Error\<close> (its message, \<open>Inl\<close>) or fulfilled (\<open>Inr\<close>); or by the
  fact that it never settles. Every rejection on the paths below is an \<open>Error\<close> object.
\<close>

datatype 'a promise = Settles nat "js_string + 'a" | Pending

text \<open>What has become of the request behind a call when the caller moves on: it has
  completed, it is still running, or it has been aborted.\<close>

datatype request_state = Completed | Running | Aborted

definition timeout_message :: "nat \<Rightarrow> js_string" where
  "timeout_message ms = js ''Timeout after '' @ string_of_nat ms @ js ''ms''"

text \<open>
  \<open>await withTimeout(promise, ms)\<close>: the race of the promise with a timer that rejects
  after \<open>ms\<close>. The race always settles; the result is the time it takes, the outcome and
  the state of the request. A call that settles within \<open>ms\<close> wins (a tie goes to the
  call). When the timer wins, nothing is done to the call: \<open>withTimeout\<close> only holds
  its promise, so the request stays running.
\<close>

definition withTimeout :: "'a promise \<Rightarrow> nat \<Rightarrow> nat \<times> (js_string + 'a) \<times> request_state" where
  "withTimeout promise ms =
     (case promise of
        Settles t r \<Rightarrow>
          if t \<le> ms then (t, r, Completed) else (ms, Inl (timeout_message ms), Running)
      | Pending \<Rightarrow> (ms, Inl (timeout_message ms), Running))"

text \<open>\<open>await promise\<close> with no deadline: \<open>None\<close> when the promise never settles.\<close>

definition await :: "'a promise \<Rightarrow> (nat \<times> (js_string + 'a)) option" where
  "await promise = (case promise of Settles t r \<Rightarrow> Some (t, r) | Pending \<Rightarrow> None)"

section \<open>Provider calls and the fallback orchestrators (services/ai.ts)\<close>

datatype provider = Gemini | OpenAI | DeepSeek | Ollama

text \<open>The order in which the orchestrators are written.\<close>

definition priority :: "provider list" where
  "priority = [Gemini, OpenAI, DeepSeek, Ollama]"

text \<open>
  The JSON a chat backend answers with. The orchestrators read one path of it
  (\<open>data.choices[0].message.content\<close>, \<open>data.message.content\<close> for Ollama,
  \<open>data.data[0].b64_json\<close> for an image): either the read throws a \<open>TypeError\<close> with
  some message, or it gives the string there.
\<close>

datatype chat_data = Unreadable js_string | Content js_string

definition read_content :: "chat_data \<Rightarrow> js_string + js_string" where
  "read_content d = (case d of Unreadable m \<Rightarrow> Inl m | Content c \<Rightarrow> Inr c)"

text \<open>
  The promises the four provider calls of one request return: \<open>callGemini\<close> resolves to
  \<open>response.text\<close>, which may be \<open>undefined\<close> (\<open>None\<close>); the others to the backend's
  JSON. A missing key is a rejection of the call.
\<close>

record provider_calls =
  callGemini :: "js_string option promise"
  callOpenAI :: "chat_data promise"
  callDeepSeek :: "chat_data promise"
  callOllama :: "chat_data promise"

text \<open>What an orchestrator did: its result, the providers it called, in order, with the
  state their requests were left in, and the time it took.\<close>

record 'a run =
  result :: "js_string + 'a"
  invoked :: "(provider \<times> request_state) list"
  elapsed :: nat

text \<open>
  \<open>cleanAndParseJSON\<close>: the text is trimmed, code fences are removed and the rest goes
  to \<open>JSON.parse\<close>; \<open>parse\<close> stands for these last two steps (\<open>None\<close> when
  \<open>JSON.parse\<close> throws).
\<close>

definition cleanAndParseJSON :: "(js_string \<Rightarrow> 'o option) \<Rightarrow> js_string \<Rightarrow> js_string + 'o" where
  "cleanAndParseJSON parse text =
     (case parse (trim text) of
        None \<Rightarrow> Inl (js ''AI response was not valid JSON'')
      | Some v \<Rightarrow> Inr v)"

text \<open>The deadline each provider's call is given, for an outline and for a chapter.\<close>

definition outline_deadline :: "provider \<Rightarrow> nat" where
  "outline_deadline p =
     (case p of Gemini \<Rightarrow> 120000 | OpenAI \<Rightarrow> 45000 | DeepSeek \<Rightarrow> 45000 | Ollama \<Rightarrow> 120000)"

definition chapter_deadline :: "provider \<Rightarrow> nat" where
  "chapter_deadline p =
     (case p of Gemini \<Rightarrow> 120000 | OpenAI \<Rightarrow> 60000 | DeepSeek \<Rightarrow> 60000 | Ollama \<Rightarrow> 180000)"

text \<open>
  The body of each \<open>try\<close> block of \<open>generateBookOutline\<close>: the time it takes, what it
  returns or throws, and the state the request is left in.
\<close>

definition outline_attempt ::
  "(js_string \<Rightarrow> 'o option) \<Rightarrow> provider_calls \<Rightarrow> provider \<Rightarrow> nat \<times> (js_string + 'o) \<times> request_state" where
  "outline_attempt parse w p =
     (case p of
        Gemini \<Rightarrow>
          (case withTimeout (callGemini w) 120000 of
             (t, Inl e, q) \<Rightarrow> (t, Inl e, q)
           | (t, Inr None, q) \<Rightarrow> (t, Inl (js ''Empty response''), q)
           | (t, Inr (Some text), q) \<Rightarrow>
               if text = [] then (t, Inl (js ''Empty response''), q)
               else (t, cleanAndParseJSON parse text, q))
      | OpenAI \<Rightarrow>
          (case withTimeout (callOpenAI w) 45000 of
             (t, Inl e, q) \<Rightarrow> (t, Inl e, q)
           | (t, Inr d, q) \<Rightarrow>
               (case read_content d of
                  Inl e \<Rightarrow> (t, Inl e, q)
                | Inr c \<Rightarrow> (t, cleanAndParseJSON parse c, q)))
      | DeepSeek \<Rightarrow>
          (case withTimeout (callDeepSeek w) 45000 of
             (t, Inl e, q) \<Rightarrow> (t, Inl e, q)
           | (t, Inr d, q) \<Rightarrow>
               (case read_content d of
                  Inl e \<Rightarrow> (t, Inl e, q)
                | Inr c \<Rightarrow> (t, cleanAndParseJSON parse c, q)))
      | Ollama \<Rightarrow>
          (case withTimeout (callOllama w) 120000 of
             (t, Inl e, q) \<Rightarrow> (t, Inl e, q)
           | (t, Inr d, q) \<Rightarrow>
               (case read_content d of
                  Inl e \<Rightarrow> (t, Inl e, q)
                | Inr c \<Rightarrow> (t, cleanAndParseJSON parse c, q))))"

text \<open>
  \<open>generateBookOutline\<close>: four \<open>try\<close> blocks in a row, each returning on success and
  pushing \<open>`<name>: ${e.message}`\<close> onto \<open>errors\<close> in its \<open>catch\<close>; after the last one
  the function throws.
\<close>

definition generateBookOutline :: "(js_string \<Rightarrow> 'o option) \<Rightarrow> provider_calls \<Rightarrow> 'o run" where
  "generateBookOutline parse w =
     (case outline_attempt parse w Gemini of
        (t1, Inr v, q1) \<Rightarrow> \<lparr>result = Inr v, invoked = [(Gemini, q1)], elapsed = t1\<rparr>
      | (t1, Inl e1, q1) \<Rightarrow>
     (case outline_attempt parse w OpenAI of
        (t2, Inr v, q2) \<Rightarrow>
          \<lparr>result = Inr v, invoked = [(Gemini, q1), (OpenAI, q2)], elapsed = t1 + t2\<rparr>
      | (t2, Inl e2, q2) \<Rightarrow>
     (case outline_attempt parse w DeepSeek of
        (t3, Inr v, q3) \<Rightarrow>
          \<lparr>result = Inr v, invoked = [(Gemini, q1), (OpenAI, q2), (DeepSeek, q3)],
           elapsed = t1 + t2 + t3\<rparr>
      | (t3, Inl e3, q3) \<Rightarrow>
     (case outline_attempt parse w Ollama of
        (t4, Inr v, q4) \<Rightarrow>
          \<lparr>result = Inr v,
           invoked = [(Gemini, q1), (OpenAI, q2), (DeepSeek, q3), (Ollama, q4)],
           elapsed = t1 + t2 + t3 + t4\<rparr>
      | (t4, Inl e4, q4) \<Rightarrow>
          \<lparr>result = Inl (js ''All AI providers failed. '' @
             join (js '', '')
               [js ''Gemini: '' @ e1, js ''OpenAI: '' @ e2, js ''DeepSeek: '' @ e3,
                js ''Ollama: '' @ e4]),
           invoked = [(Gemini, q1), (OpenAI, q2), (DeepSeek, q3), (Ollama, q4)],
           elapsed = t1 + t2 + t3 + t4\<rparr>))))"

text \<open>
  The \<open>try\<close> blocks of \<open>generateChapterContent\<close>. The Gemini block returns only a
  truthy text (\<open>if (text) return text\<close>) and otherwise falls through to the next block
  without an error; the other blocks return whatever string the content path holds.
  \<open>None\<close> stands for a block that did not return.
\<close>

definition chapter_attempt ::
  "provider_calls \<Rightarrow> provider \<Rightarrow> nat \<times> js_string option \<times> request_state" where
  "chapter_attempt w p =
     (case p of
        Gemini \<Rightarrow>
          (case withTimeout (callGemini w) 120000 of
             (t, Inl e, q) \<Rightarrow> (t, None, q)
           | (t, Inr None, q) \<Rightarrow> (t, None, q)
           | (t, Inr (Some text), q) \<Rightarrow> if text = [] then (t, None, q) else (t, Some text, q))
      | OpenAI \<Rightarrow>
          (case withTimeout (callOpenAI w) 60000 of
             (t, Inl e, q) \<Rightarrow> (t, None, q)
           | (t, Inr d, q) \<Rightarrow>
               (case read_content d of Inl e \<Rightarrow> (t, None, q) | Inr c \<Rightarrow> (t, Some c, q)))
      | DeepSeek \<Rightarrow>
          (case withTimeout (callDeepSeek w) 60000 of
             (t, Inl e, q) \<Rightarrow> (t, None, q)
           | (t, Inr d, q) \<Rightarrow>
               (case read_content d of Inl e \<Rightarrow> (t, None, q) | Inr c \<Rightarrow> (t, Some c, q)))
      | Ollama \<Rightarrow>
          (case withTimeout (callOllama w) 180000 of
             (t, Inl e, q) \<Rightarrow> (t, None, q)
           | (t, Inr d, q) \<Rightarrow>
               (case read_content d of Inl e \<Rightarrow> (t, None, q) | Inr c \<Rightarrow> (t, Some c, q))))"

definition chapter_failed :: js_string where
  "chapter_failed = js ''[Error: Chapter generation failed across all providers.]''"

text \<open>
  \<open>generateChapterContent\<close>: the same chain, but after the last block it returns a
  placeholder text instead of throwing, so its result is always a string.
\<close>

definition generateChapterContent :: "provider_calls \<Rightarrow> js_string run" where
  "generateChapterContent w =
     (case chapter_attempt w Gemini of
        (t1, Some c, q1) \<Rightarrow> \<lparr>result = Inr c, invoked = [(Gemini, q1)], elapsed = t1\<rparr>
      | (t1, None, q1) \<Rightarrow>
     (case chapter_attempt w OpenAI of
        (t2, Some c, q2) \<Rightarrow>
          \<lparr>result = Inr c, invoked = [(Gemini, q1), (OpenAI, q2)], elapsed = t1 + t2\<rparr>
      | (t2, None, q2) \<Rightarrow>
     (case chapter_attempt w DeepSeek of
        (t3, Some c, q3) \<Rightarrow>
          \<lparr>result = Inr c, invoked = [(Gemini, q1), (OpenAI, q2), (DeepSeek, q3)],
           elapsed = t1 + t2 + t3\<rparr>
      | (t3, None, q3) \<Rightarrow>
     (case chapter_attempt w Ollama of
        (t4, Some c, q4) \<Rightarrow>
          \<lparr>result = Inr c,
           invoked = [(Gemini, q1), (OpenAI, q2), (DeepSeek, q3), (Ollama, q4)],
           elapsed = t1 + t2 + t3 + t4\<rparr>
      | (t4, None, q4) \<Rightarrow>
          \<lparr>result = Inr chapter_failed,
           invoked = [(Gemini, q1), (OpenAI, q2), (DeepSeek, q3), (Ollama, q4)],
           elapsed = t1 + t2 + t3 + t4\<rparr>))))"

text \<open>
  The fallback algorithm in general, for any list of providers: call them in order,
  return the first success at once, collect the failures otherwise. The result is the
  list of providers called and either the first success or every failure.
\<close>

fun first_success :: "('p \<Rightarrow> 'e + 'a) \<Rightarrow> 'p list \<Rightarrow> 'p list \<times> ('e list + 'a)" where
  "first_success attempt [] = ([], Inl [])"
| "first_success attempt (p # ps) =
     (case attempt p of
        Inr v \<Rightarrow> ([p], Inr v)
      | Inl e \<Rightarrow>
          (case first_success attempt ps of
             (called, Inl es) \<Rightarrow> (p # called, Inl (e # es))
           | (called, Inr v) \<Rightarrow> (p # called, Inr v)))"

text \<open>Success or failure of one block, without its time and request state.\<close>

definition outline_outcome ::
  "(js_string \<Rightarrow> 'o option) \<Rightarrow> provider_calls \<Rightarrow> provider \<Rightarrow> js_string + 'o" where
  "outline_outcome parse w p = fst (snd (outline_attempt parse w p))"

definition chapter_outcome :: "provider_calls \<Rightarrow> provider \<Rightarrow> unit + js_string" where
  "chapter_outcome w p =
     (case fst (snd (chapter_attempt w p)) of None \<Rightarrow> Inl () | Some c \<Rightarrow> Inr c)"

section \<open>The data model (types.ts)\<close>

text \<open>
  The interfaces of \<open>types.ts\<close>. Several of them have a field \<open>title\<close> (and
  \<open>description\<close>); so that the fields keep their names, the records are built as
  extensions of one another: \<open>GeneratedBook\<close> extends \<open>BookOutline\<close> as in the source,
  and the shared fields come from a common root.
\<close>

record Titled =
  title :: js_string

record ChapterOutline = Titled +
  description :: js_string

record ChapterContent = Titled +
  content :: js_string

record BookOutline = ChapterOutline +
  subtitle :: js_string
  backCoverCopy :: js_string
  chapters :: "ChapterOutline list"

record GeneratedBook = BookOutline +
  fullChapters :: "ChapterContent list"

record BookOptions =
  topic :: js_string
  targetAudience :: js_string
  pageCount :: js_string
  targetChapterCount :: int
  tone :: js_string
  authorName :: js_string
  objective :: js_string
  bookDescription :: js_string
  extras :: "js_string list"

datatype AppStep = INPUT | OUTLINE_LOADING | OUTLINE_REVIEW | GENERATING | COMPLETED | ERROR

section \<open>The generation sequencer (the application component)\<close>

text \<open>
  The state of the component, one field per \<open>useState\<close>. The outline is declared a
  \<open>BookOutline\<close>, and the handlers that read it are modelled at that type; what the
  field holds at run time is whatever was stored, so the type of the stored outline is a
  parameter of the record.
\<close>

record 'o app_state_of =
  step :: AppStep
  options :: "BookOptions option"
  outline :: "'o option"
  generatedBook :: "GeneratedBook option"
  generatedChapters :: "ChapterContent list"
  error :: "js_string option"
  shouldResume :: bool
  currentBookId :: "js_string option"

type_synonym app_state = "BookOutline app_state_of"

text \<open>
  What \<open>generateBookOutline\<close> hands back at run time, as far as the component looks at
  it. The services return the value of \<open>JSON.parse\<close> (or the \<open>outline\<close> field of the
  server's JSON) under the declared type, and nothing checks its shape. So the result
  is a falsy value (\<open>null\<close>, \<open>undefined\<close>); a value whose \<open>chapters\<close> is missing or
  falsy; an outline whose \<open>chapters\<close> is an array, which may be empty (the component
  does not look at its elements, which are taken at their declared type); or an object
  whose \<open>chapters\<close> is truthy but not an array (an object, a non-zero number, \<open>true\<close>,
  a non-empty string), given with the natural number its \<open>length\<close> property holds,
  \<open>None\<close> when that property is \<open>undefined\<close> or anything else: \<open>{}\<close> is
  \<open>Unshaped None\<close>, the string \<open>"abc"\<close> is \<open>Unshaped (Some 3)\<close>, and \<open>{"length": 0}\<close> is
  \<open>Unshaped (Some 0)\<close>.
\<close>

datatype outline_result = Nothing | NoChapters | Outline BookOutline | Unshaped "nat option"

text \<open>
  The services the component calls. \<open>createBook\<close> gives the new row's id or \<open>null\<close>;
  the two generators return or throw; the other persistence calls
  (\<open>updateBookWithOutline\<close>, \<open>saveChapter\<close>, \<open>completeBook\<close>) log their own errors and
  return nothing, so only the fact that they are called is recorded.
\<close>

record services =
  createBook :: "BookOptions \<Rightarrow> js_string option"
  outline_service :: "BookOptions \<Rightarrow> js_string + outline_result"
  chapter_service ::
    "BookOptions \<Rightarrow> js_string \<times> js_string \<Rightarrow> ChapterOutline \<Rightarrow> nat \<Rightarrow> nat \<Rightarrow> js_string + js_string"

datatype effect =
  CreateBook
| RequestOutline
| UpdateBookWithOutline js_string
| RequestChapter nat
| SaveChapter js_string nat
| Pause nat
| CompleteBook js_string

text \<open>\<open>if (id)\<close> on a string or \<open>null\<close>: the empty string is falsy too.\<close>

definition truthy_id :: "js_string option \<Rightarrow> js_string option" where
  "truthy_id b = (case b of None \<Rightarrow> None | Some i \<Rightarrow> if i = [] then None else Some i)"

text \<open>The \<open>catch\<close> block of \<open>handleWizardSubmit\<close>.\<close>

definition outline_failed :: "'o app_state_of \<Rightarrow> js_string \<Rightarrow> 'o app_state_of" where
  "outline_failed st m =
     st\<lparr>error := Some (js ''Failed to generate outline. The AI service may be busy or out of credits. '' @ m),
        step := INPUT\<rparr>"

text \<open>
  \<open>handleWizardSubmit\<close>. The test is \<open>!result || !result.chapters ||
  result.chapters.length === 0\<close>, and \<open>setOutline(result)\<close> stores the result as it
  is.
\<close>

definition handleWizardSubmit ::
  "services \<Rightarrow> outline_result app_state_of \<Rightarrow> BookOptions \<Rightarrow>
   outline_result app_state_of \<times> effect list" where
  "handleWizardSubmit sv st formData =
     (let st1 = st\<lparr>options := Some formData, step := OUTLINE_LOADING, error := None\<rparr>;
          bookId = truthy_id (createBook sv formData);
          st2 = (case bookId of Some b \<Rightarrow> st1\<lparr>currentBookId := Some b\<rparr> | None \<Rightarrow> st1);
          invalid = js ''Generated outline was empty or invalid.''
      in case outline_service sv formData of
           Inl m \<Rightarrow> (outline_failed st2 m, [CreateBook, RequestOutline])
         | Inr Nothing \<Rightarrow> (outline_failed st2 invalid, [CreateBook, RequestOutline])
         | Inr NoChapters \<Rightarrow> (outline_failed st2 invalid, [CreateBook, RequestOutline])
         | Inr (Outline res) \<Rightarrow>
             if length (chapters res) = 0
             then (outline_failed st2 invalid, [CreateBook, RequestOutline])
             else (st2\<lparr>outline := Some (Outline res), step := OUTLINE_REVIEW\<rparr>,
                   [CreateBook, RequestOutline] @
                   (case bookId of Some b \<Rightarrow> [UpdateBookWithOutline b] | None \<Rightarrow> []))
         | Inr (Unshaped len) \<Rightarrow>
             if len = Some 0
             then (outline_failed st2 invalid, [CreateBook, RequestOutline])
             else (st2\<lparr>outline := Some (Unshaped len), step := OUTLINE_REVIEW\<rparr>,
                   [CreateBook, RequestOutline] @
                   (case bookId of Some b \<Rightarrow> [UpdateBookWithOutline b] | None \<Rightarrow> [])))"

text \<open>
  The chapter loop of \<open>handleStartGeneration\<close>. Its state: the component's state, the
  local array \<open>chapters\<close>, the loop variable \<open>i\<close> and the calls made so far.
\<close>

record loop_state =
  app :: app_state
  chapters_local :: "ChapterContent list"
  index :: nat
  effects :: "effect list"

text \<open>
  One pass through the loop body, for \<open>i < outline.chapters.length\<close>: the new state,
  and the message of what the chapter call threw, if it threw.
\<close>

definition loop_body ::
  "services \<Rightarrow> BookOutline \<Rightarrow> BookOptions \<Rightarrow> js_string option \<Rightarrow> loop_state \<Rightarrow>
   loop_state \<times> js_string option" where
  "loop_body sv ol opts bookId s =
     (let i = index s;
          chapterMeta = chapters ol ! i
      in case chapter_service sv opts (title ol, subtitle ol) chapterMeta i (length (chapters ol)) of
           Inl e \<Rightarrow> (s\<lparr>effects := effects s @ [RequestChapter i]\<rparr>, Some e)
         | Inr c \<Rightarrow>
             (let newChapter = \<lparr>title = title chapterMeta, content = c\<rparr>
              in (s\<lparr>app := (app s)\<lparr>generatedChapters := generatedChapters (app s) @ [newChapter]\<rparr>,
                     chapters_local := chapters_local s @ [newChapter],
                     index := Suc i,
                     effects := effects s @ [RequestChapter i] @
                       (case truthy_id bookId of Some b \<Rightarrow> [SaveChapter b i] | None \<Rightarrow> []) @
                       [Pause 500]\<rparr>,
                  None)))"

function chapter_loop ::
  "services \<Rightarrow> BookOutline \<Rightarrow> BookOptions \<Rightarrow> js_string option \<Rightarrow> loop_state \<Rightarrow>
   loop_state \<times> js_string option" where
  "chapter_loop sv ol opts bookId s =
     (if index s < length (chapters ol) then
        (case loop_body sv ol opts bookId s of
           (s', Some e) \<Rightarrow> (s', Some e)
         | (s', None) \<Rightarrow> chapter_loop sv ol opts bookId s')
      else (s, None))"
  by pat_completeness auto
termination
  by (relation "measure (\<lambda>(sv, ol, opts, bookId, s). length (chapters ol) - index s)")
    (auto simp: loop_body_def Let_def split: sum.splits)

text \<open>The states at the head of the loop, one per test of the loop condition.\<close>

function loop_heads ::
  "services \<Rightarrow> BookOutline \<Rightarrow> BookOptions \<Rightarrow> js_string option \<Rightarrow> loop_state \<Rightarrow> loop_state list" where
  "loop_heads sv ol opts bookId s =
     (if index s < length (chapters ol) then
        (case loop_body sv ol opts bookId s of
           (s', Some e) \<Rightarrow> [s, s']
         | (s', None) \<Rightarrow> s # loop_heads sv ol opts bookId s')
      else [s])"
  by pat_completeness auto
termination
  by (relation "measure (\<lambda>(sv, ol, opts, bookId, s). length (chapters ol) - index s)")
    (auto simp: loop_body_def Let_def split: sum.splits)

text \<open>The state the loop starts in.\<close>

definition loop_start :: "app_state \<Rightarrow> bool \<Rightarrow> loop_state" where
  "loop_start st resume =
     (let st1 = st\<lparr>step := GENERATING\<rparr>;
          st2 = (if \<not> resume then st1\<lparr>generatedChapters := []\<rparr> else st1);
          startIndex = (if resume then length (generatedChapters st) else 0);
          chs = (if resume then generatedChapters st else [])
      in \<lparr>app = st2\<lparr>error := None\<rparr>, chapters_local = chs, index = startIndex, effects = []\<rparr>)"

definition handleStartGeneration ::
  "services \<Rightarrow> app_state \<Rightarrow> bool \<Rightarrow> app_state \<times> effect list" where
  "handleStartGeneration sv st resume =
     (case (outline st, options st) of
        (Some ol, Some opts) \<Rightarrow>
          (case chapter_loop sv ol opts (currentBookId st) (loop_start st resume) of
             (s, Some e) \<Rightarrow>
               ((app s)\<lparr>error := Some (js ''An error occurred during book generation. Partial progress may be lost.''),
                       step := ERROR\<rparr>,
                effects s)
           | (s, None) \<Rightarrow>
               ((app s)\<lparr>generatedBook := Some
                          \<lparr>title = title ol, description = description ol, subtitle = subtitle ol,
                           backCoverCopy = backCoverCopy ol, chapters = chapters ol,
                           fullChapters = chapters_local s\<rparr>,
                        step := COMPLETED\<rparr>,
                effects s @
                  (case truthy_id (currentBookId st) of Some b \<Rightarrow> [CompleteBook b] | None \<Rightarrow> [])))
      | _ \<Rightarrow> (st, []))"

text \<open>The chapter indices for which content was requested, in order.\<close>

fun requested :: "effect list \<Rightarrow> nat list" where
  "requested [] = []"
| "requested (RequestChapter i # es) = i # requested es"
| "requested (e # es) = requested es"

text \<open>
  The chapter service of the multi-provider build: \<open>generateChapterContent\<close> run on the
  provider calls of chapter \<open>i\<close>. It never throws.
\<close>

definition direct_chapter_service ::
  "(nat \<Rightarrow> provider_calls) \<Rightarrow>
   BookOptions \<Rightarrow> js_string \<times> js_string \<Rightarrow> ChapterOutline \<Rightarrow> nat \<Rightarrow> nat \<Rightarrow> js_string + js_string" where
  "direct_chapter_service calls opts bookInfo chapter chapterIndex totalChapters =
     result (generateChapterContent (calls chapterIndex))"

text \<open>
  The invariant of the loop: the local array and the component's chapter list are the
  same list, it has as many entries as the loop has counted, and its titles are the
  first titles of the outline, in order.
\<close>

definition loop_inv :: "BookOutline \<Rightarrow> loop_state \<Rightarrow> bool" where
  "loop_inv ol s \<longleftrightarrow>
     length (chapters_local s) = index s \<and>
     index s \<le> length (chapters ol) \<and>
     map title (chapters_local s) = take (index s) (map title (chapters ol)) \<and>
     generatedChapters (app s) = chapters_local s"

text \<open>The call of the chapter service the loop makes for index \<open>i\<close>, and the chapter it
  stores when that call returns.\<close>

definition chapter_call :: "services \<Rightarrow> BookOutline \<Rightarrow> BookOptions \<Rightarrow> nat \<Rightarrow> js_string + js_string" where
  "chapter_call sv ol opts i =
     chapter_service sv opts (title ol, subtitle ol) (chapters ol ! i) i (length (chapters ol))"

definition chapter_of :: "services \<Rightarrow> BookOutline \<Rightarrow> BookOptions \<Rightarrow> nat \<Rightarrow> ChapterContent" where
  "chapter_of sv ol opts i =
     \<lparr>title = title (chapters ol ! i), content = projr (chapter_call sv ol opts i)\<rparr>"

text \<open>
  The chapter calls made so far that returned, by index and in order: the loop records
  every call it makes, and a call returned when the chapter service did not throw.
\<close>

definition returned_calls :: "services \<Rightarrow> BookOutline \<Rightarrow> BookOptions \<Rightarrow> effect list \<Rightarrow> nat list" where
  "returned_calls sv ol opts es = filter (\<lambda>i. \<not> isl (chapter_call sv ol opts i)) (requested es)"

text \<open>
  The invariant of the chapter sequence in a run that started with the chapters
  \<open>stored\<close>: besides \<open>loop_inv\<close>, the calls that returned are those of the indices from
  the number of stored chapters up to the loop counter, and the sequence is the stored
  chapters followed by one chapter per returned call, in the order of the calls, each
  with the title of its outline entry and the text its call returned.
\<close>

definition sequence_inv ::
  "services \<Rightarrow> BookOutline \<Rightarrow> BookOptions \<Rightarrow> ChapterContent list \<Rightarrow> loop_state \<Rightarrow> bool" where
  "sequence_inv sv ol opts stored s \<longleftrightarrow>
     loop_inv ol s \<and>
     length stored \<le> index s \<and>
     returned_calls sv ol opts (effects s) = [length stored ..< index s] \<and>
     chapters_local s = stored @ map (chapter_of sv ol opts) (returned_calls sv ol opts (effects s))"

text \<open>
  What the loop has done when it is left, started in state \<open>s\<close>: it ends at some index
  with the chapters of the indices from \<open>index s\<close> up to it appended, in order, to the
  local array and to the component's list, nothing else of the component's state
  changed, and every one of those calls returned; it either ran to the end of the
  outline, or the call at the final index threw and no chapter was stored for it.
\<close>

definition loop_post ::
  "services \<Rightarrow> BookOutline \<Rightarrow> BookOptions \<Rightarrow> loop_state \<Rightarrow> loop_state \<times> js_string option \<Rightarrow> bool" where
  "loop_post sv ol opts s out \<longleftrightarrow>
     (case out of (s', thrown) \<Rightarrow>
        index s \<le> index s' \<and> index s' \<le> length (chapters ol) \<and>
        chapters_local s' = chapters_local s @ map (chapter_of sv ol opts) [index s ..< index s'] \<and>
        generatedChapters (app s') =
          generatedChapters (app s) @ map (chapter_of sv ol opts) [index s ..< index s'] \<and>
        (app s')\<lparr>generatedChapters := []\<rparr> = (app s)\<lparr>generatedChapters := []\<rparr> \<and>
        (\<forall>i. index s \<le> i \<and> i < index s' \<longrightarrow> \<not> isl (chapter_call sv ol opts i)) \<and>
        (case thrown of
           None \<Rightarrow>
             index s' = length (chapters ol) \<and>
             requested (effects s') = requested (effects s) @ [index s ..< index s']
         | Some e \<Rightarrow>
             index s' < length (chapters ol) \<and> chapter_call sv ol opts (index s') = Inl e \<and>
             requested (effects s') = requested (effects s) @ [index s ..< Suc (index s')]))"

section \<open>Concrete runs\<close>

text \<open>The component's initial state, and a three-chapter book used in the examples.\<close>

definition initial_state :: "'o app_state_of" where
  "initial_state =
     \<lparr>step = INPUT, options = None, outline = None, generatedBook = None,
      generatedChapters = [], error = None, shouldResume = False, currentBookId = None\<rparr>"

definition demo_outline :: BookOutline where
  "demo_outline =
     \<lparr>title = js ''T'', description = [], subtitle = js ''S'', backCoverCopy = [],
      chapters = [\<lparr>title = js ''A'', description = []\<rparr>, \<lparr>title = js ''B'', description = []\<rparr>,
                  \<lparr>title = js ''C'', description = []\<rparr>]\<rparr>"

definition demo_options :: BookOptions where
  "demo_options =
     \<lparr>topic = js ''t'', targetAudience = [], pageCount = [], targetChapterCount = 3, tone = [],
      authorName = [], objective = [], bookDescription = [], extras = []\<rparr>"

definition demo_services :: services where
  "demo_services =
     \<lparr>createBook = (\<lambda>opts. None),
      outline_service = (\<lambda>opts. Inr (Outline demo_outline)),
      chapter_service = (\<lambda>opts bookInfo chapter i total. Inr (js ''# '' @ title chapter))\<rparr>"

definition empty_outline_services :: services where
  "empty_outline_services =
     demo_services\<lparr>outline_service := (\<lambda>opts. Inr (Outline (demo_outline\<lparr>chapters := []\<rparr>)))\<rparr>"

text \<open>An outline service whose parsed answer has \<open>"chapters": {}\<close>.\<close>

definition unshaped_services :: services where
  "unshaped_services = demo_services\<lparr>outline_service := (\<lambda>opts. Inr (Unshaped None))\<rparr>"

definition demo_paused :: app_state where
  "demo_paused =
     initial_state\<lparr>step := ERROR, options := Some demo_options, outline := Some demo_outline,
       generatedChapters := [\<lparr>title = js ''A'', content = js ''# A''\<rparr>]\<rparr>"



text \<open>Provider calls of one request: Gemini has no key, OpenAI answers, the other two
  never settle; and calls that all fail.\<close>

definition demo_calls :: provider_calls where
  "demo_calls =
     \<lparr>callGemini = Settles 10 (Inl (js ''Gemini Key Missing'')),
      callOpenAI = Settles 2000 (Inr (Content (js ''ok''))),
      callDeepSeek = Pending, callOllama = Pending\<rparr>"

definition failing_calls :: provider_calls where
  "failing_calls =
     \<lparr>callGemini = Settles 5 (Inl (js ''Gemini Key Missing'')),
      callOpenAI = Settles 5 (Inl (js ''OpenAI Key Missing'')),
      callDeepSeek = Settles 5 (Inl (js ''DeepSeek Key Missing'')),
      callOllama = Settles 5 (Inl (js ''Failed to fetch''))\<rparr>"

definition failing_services :: services where
  "failing_services =
     demo_services\<lparr>chapter_service :=
       direct_chapter_service (\<lambda>i. if i = 1 then failing_calls else demo_calls)\<rparr>"

definition demo_reviewed :: app_state where
  "demo_reviewed =
     initial_state\<lparr>step := OUTLINE_REVIEW, options := Some demo_options, outline := Some demo_outline\<rparr>"

text \<open>A chapter service that throws for the second chapter.\<close>

definition throwing_services :: services where
  "throwing_services =
     demo_services\<lparr>chapter_service :=
       (\<lambda>opts bookInfo chapter i total.
          if i = 1 then Inl (js ''Request failed (500)'') else Inr (js ''# '' @ title chapter))\<rparr>"

section \<open>Cover images (services/ai.ts and the older single-provider service)\<close>

datatype image_size = Size_1K | Size_2K | Size_4K

definition image_prefix :: js_string where
  "image_prefix = js ''data:image/png;base64,''"

text \<open>
  The image backends of the multi-provider build, as functions of the prompt:
  whether a Gemini key is configured; the Gemini call, resolving to the data of the first
  response part that has \<open>inlineData\<close> (\<open>None\<close> when no part has); and \<open>callOpenAI\<close>
  on the image endpoint, whose JSON is read at \<open>data.data[0].b64_json\<close>. Neither call
  is given the size or an image.
\<close>

record image_backends =
  gemini_key :: bool
  gemini_image :: "js_string \<Rightarrow> js_string option promise"
  openai_image :: "js_string \<Rightarrow> chat_data promise"

text \<open>The second \<open>try\<close> block of \<open>generateCoverImage\<close>, entered after \<open>t0\<close> ms with
  \<open>called\<close> already called. The calls are awaited without a deadline.\<close>

definition cover_openai ::
  "image_backends \<Rightarrow> js_string \<Rightarrow> nat \<Rightarrow> (provider \<times> request_state) list \<Rightarrow> js_string run option" where
  "cover_openai w prompt t0 called =
     (case await (openai_image w prompt) of
        None \<Rightarrow> None
      | Some (t, Inl e) \<Rightarrow>
          Some \<lparr>result = Inl (js ''Failed to generate cover image with all providers.''),
                invoked = called @ [(OpenAI, Completed)], elapsed = t0 + t\<rparr>
      | Some (t, Inr d) \<Rightarrow>
          (case read_content d of
             Inl e \<Rightarrow>
               Some \<lparr>result = Inl (js ''Failed to generate cover image with all providers.''),
                     invoked = called @ [(OpenAI, Completed)], elapsed = t0 + t\<rparr>
           | Inr b64 \<Rightarrow>
               Some \<lparr>result = Inr (image_prefix @ b64),
                     invoked = called @ [(OpenAI, Completed)], elapsed = t0 + t\<rparr>))"

definition generateCoverImage ::
  "image_backends \<Rightarrow> js_string \<Rightarrow> image_size \<Rightarrow> js_string run option" where
  "generateCoverImage w prompt sz =
     (if \<not> gemini_key w then cover_openai w prompt 0 []
      else
        (case await (gemini_image w prompt) of
           None \<Rightarrow> None
         | Some (t, Inl e) \<Rightarrow> cover_openai w prompt t [(Gemini, Completed)]
         | Some (t, Inr None) \<Rightarrow> cover_openai w prompt t [(Gemini, Completed)]
         | Some (t, Inr (Some d)) \<Rightarrow>
             Some \<lparr>result = Inr (image_prefix @ d), invoked = [(Gemini, Completed)],
                   elapsed = t\<rparr>))"

definition editCoverImage ::
  "image_backends \<Rightarrow> js_string \<Rightarrow> js_string \<Rightarrow> js_string run option" where
  "editCoverImage w base64 prompt = generateCoverImage w prompt Size_1K"

text \<open>
  The older OpenAI-only service: one call, whose error is thrown on as it is.
\<close>

definition generateCoverImage_openai ::
  "(js_string \<Rightarrow> chat_data promise) \<Rightarrow> js_string \<Rightarrow> image_size \<Rightarrow> (nat \<times> (js_string + js_string)) option" where
  "generateCoverImage_openai call prompt sz =
     (case await (call prompt) of
        None \<Rightarrow> None
      | Some (t, Inl e) \<Rightarrow> Some (t, Inl e)
      | Some (t, Inr d) \<Rightarrow>
          (case read_content d of
             Inl e \<Rightarrow> Some (t, Inl e)
           | Inr b64 \<Rightarrow> Some (t, Inr (image_prefix @ b64))))"

definition editCoverImage_openai ::
  "(js_string \<Rightarrow> chat_data promise) \<Rightarrow> js_string \<Rightarrow> js_string \<Rightarrow> (nat \<times> (js_string + js_string)) option" where
  "editCoverImage_openai call base64Image prompt = generateCoverImage_openai call prompt Size_1K"

section \<open>The server-proxied client (services/ai.ts, postJSON)\<close>

text \<open>
  What the server answers: a status, and a body whose JSON arrives some time after the
  status line. Of the JSON only the field \<open>error\<close> (when it is a string) and the field
  the caller reads (\<open>outline\<close>, \<open>content\<close>, \<open>image\<close>) matter; either may be absent.
\<close>

record 'a payload =
  error_field :: "js_string option"
  data_field :: "'a option"

record 'a reply =
  reply_status :: nat
  reply_json :: "'a payload promise"

definition reply_ok :: "'a reply \<Rightarrow> bool" where
  "reply_ok r \<longleftrightarrow> 200 \<le> reply_status r \<and> reply_status r \<le> 299"

definition empty_payload :: "'a payload" where
  "empty_payload = \<lparr>error_field = None, data_field = None\<rparr>"

text \<open>The message of the \<open>AbortError\<close> a fetch rejects with when its signal is aborted;
  the text is the runtime's, this one stands for it.\<close>

definition abort_message :: js_string where
  "abort_message = js ''The operation was aborted.''"

text \<open>
  \<open>await response.json().catch(() => ({}))\<close>, started \<open>t\<close> ms into the call while the
  abort timer is still armed: a body that fails to parse, or is not complete when the
  timer fires, gives the empty object.
\<close>

definition read_json :: "'a payload promise \<Rightarrow> nat \<Rightarrow> nat \<Rightarrow> nat \<times> 'a payload \<times> request_state" where
  "read_json json t timeoutMs =
     (case json of
        Settles u (Inr d) \<Rightarrow>
          if t + u \<le> timeoutMs then (t + u, d, Completed) else (timeoutMs, empty_payload, Aborted)
      | Settles u (Inl e) \<Rightarrow>
          if t + u \<le> timeoutMs then (t + u, empty_payload, Completed)
          else (timeoutMs, empty_payload, Aborted)
      | Pending \<Rightarrow> (timeoutMs, empty_payload, Aborted))"

text \<open>
  \<open>postJSON\<close>: the fetch is given the signal of an \<open>AbortController\<close> that a timer
  aborts after \<open>timeoutMs\<close>, so a request still running then is aborted and the fetch
  rejects. A response that is not \<open>ok\<close> is thrown as an error.
\<close>

definition postJSON :: "'a reply promise \<Rightarrow> nat \<Rightarrow> nat \<times> (js_string + 'a payload) \<times> request_state" where
  "postJSON fetch timeoutMs =
     (case fetch of
        Pending \<Rightarrow> (timeoutMs, Inl abort_message, Aborted)
      | Settles t (Inl e) \<Rightarrow>
          if t \<le> timeoutMs then (t, Inl e, Completed) else (timeoutMs, Inl abort_message, Aborted)
      | Settles t (Inr response) \<Rightarrow>
          if t \<le> timeoutMs then
            (case read_json (reply_json response) t timeoutMs of
               (t', d, q) \<Rightarrow>
                 if \<not> reply_ok response then
                   (t', Inl (case error_field d of
                              Some m \<Rightarrow> m
                            | None \<Rightarrow> js ''Request failed ('' @ string_of_nat (reply_status response) @ js '')''),
                    q)
                 else (t', Inr d, q))
          else (timeoutMs, Inl abort_message, Aborted))"

text \<open>
  The three client operations: what they return is the field of the JSON, which is
  \<open>undefined\<close> (\<open>None\<close>) when the field is absent. The server is given as the reply to
  each request body.
\<close>

record proxy_server =
  post_outline :: "BookOptions \<Rightarrow> outline_result reply promise"
  post_chapter ::
    "BookOptions \<Rightarrow> js_string \<times> js_string \<Rightarrow> ChapterOutline \<Rightarrow> nat \<Rightarrow> nat \<Rightarrow> js_string reply promise"
  post_cover :: "js_string \<Rightarrow> image_size \<Rightarrow> js_string reply promise"

definition field_of :: "nat \<times> (js_string + 'a payload) \<times> request_state \<Rightarrow> nat \<times> (js_string + 'a option) \<times> request_state" where
  "field_of out =
     (case out of
        (t, Inl e, q) \<Rightarrow> (t, Inl e, q)
      | (t, Inr d, q) \<Rightarrow> (t, Inr (data_field d), q))"

definition generateBookOutline_proxy ::
  "proxy_server \<Rightarrow> BookOptions \<Rightarrow> nat \<times> (js_string + outline_result option) \<times> request_state" where
  "generateBookOutline_proxy srv opts = field_of (postJSON (post_outline srv opts) 120000)"

definition generateChapterContent_proxy ::
  "proxy_server \<Rightarrow> BookOptions \<Rightarrow> js_string \<times> js_string \<Rightarrow> ChapterOutline \<Rightarrow> nat \<Rightarrow> nat \<Rightarrow>
   nat \<times> (js_string + js_string option) \<times> request_state" where
  "generateChapterContent_proxy srv opts bookInfo chapter chapterIndex totalChapters =
     field_of (postJSON (post_chapter srv opts bookInfo chapter chapterIndex totalChapters) 180000)"

definition generateCoverImage_proxy ::
  "proxy_server \<Rightarrow> js_string \<Rightarrow> image_size \<Rightarrow> nat \<times> (js_string + js_string option) \<times> request_state" where
  "generateCoverImage_proxy srv prompt sz = field_of (postJSON (post_cover srv prompt sz) 120000)"

definition editCoverImage_proxy ::
  "proxy_server \<Rightarrow> js_string \<Rightarrow> js_string \<Rightarrow> nat \<times> (js_string + js_string option) \<times> request_state" where
  "editCoverImage_proxy srv base64 prompt = generateCoverImage_proxy srv prompt Size_1K"

section \<open>The e-book package (exportToEpub)\<close>

text \<open>\<open>String.prototype.replace\<close> with a string pattern: the first occurrence only.\<close>

fun replace_first :: "js_string \<Rightarrow> js_string \<Rightarrow> js_string \<Rightarrow> js_string" where
  "replace_first pat rep [] = (if pat = [] then rep else [])"
| "replace_first pat rep (c # cs) =
     (if prefix pat (c # cs) then rep @ drop (length pat) (c # cs)
      else c # replace_first pat rep cs)"

text \<open>
  \<open>chapterFiles\<close>: the title page, the table of contents, and one page per entry of
  \<open>book.fullChapters\<close>, pushed in this order.
\<close>

definition chapterFiles :: "GeneratedBook \<Rightarrow> js_string list" where
  "chapterFiles book =
     [js ''Text/title.xhtml'', js ''Text/toc.xhtml''] @
     map (\<lambda>(i, ch). js ''Text/chapter'' @ string_of_nat (i + 1) @ js ''.xhtml'')
       (List.enumerate 0 (fullChapters book))"

text \<open>
  The entries of the package document, by their attribute values: an \<open>item\<close> of the
  manifest, and the \<open>idref\<close> of an \<open>itemref\<close> of the spine. Both are made by mapping over
  \<open>chapterFiles\<close> with the index.
\<close>

record manifest_item =
  item_id :: js_string
  href :: js_string
  media_type :: js_string

definition manifest_entries :: "GeneratedBook \<Rightarrow> manifest_item list" where
  "manifest_entries book =
     map (\<lambda>(i, f).
            \<lparr>item_id = js ''item'' @ string_of_nat i,
             href = replace_first (js ''OEBPS/'') [] f,
             media_type = js ''application/xhtml+xml''\<rparr>)
       (List.enumerate 0 (chapterFiles book))"

definition spine_refs :: "GeneratedBook \<Rightarrow> js_string list" where
  "spine_refs book =
     map (\<lambda>(i, f). js ''item'' @ string_of_nat i) (List.enumerate 0 (chapterFiles book))"


text \<open>The text written into \<open>content.opf\<close> (34 is the double quote, 10 the newline).\<close>

definition render_item :: "manifest_item \<Rightarrow> js_string" where
  "render_item it =
     js ''<item id='' @ [34] @ item_id it @ [34] @ js '' href='' @ [34] @ href it @ [34] @
     js '' media-type='' @ [34] @ media_type it @ [34] @ js ''/>''"

definition render_itemref :: "js_string \<Rightarrow> js_string" where
  "render_itemref idref = js ''<itemref idref='' @ [34] @ idref @ [34] @ js ''/>''"

definition manifestItems :: "GeneratedBook \<Rightarrow> js_string" where
  "manifestItems book = join [10] (map render_item (manifest_entries book))"

definition spineItems :: "GeneratedBook \<Rightarrow> js_string" where
  "spineItems book = join [10] (map render_itemref (spine_refs book))"



section \<open>The word-processor conversion (markdownToDocxParagraphs)\<close>

text \<open>\<open>s.split('\n')\<close>, for any separator code unit: the pieces between the separators;
  a string without the separator is one piece, and so is the empty string.\<close>

fun split_on :: "nat \<Rightarrow> js_string \<Rightarrow> js_string list" where
  "split_on sep [] = [[]]"
| "split_on sep (c # cs) =
     (if c = sep then [] # split_on sep cs
      else (case split_on sep cs of l # ls \<Rightarrow> (c # l) # ls | [] \<Rightarrow> [[c]]))"

text \<open>\<open>s.slice(a, -b)\<close>: without the first \<open>a\<close> and the last \<open>b\<close> code units; empty when
  these overlap.\<close>

definition slice_ends :: "nat \<Rightarrow> nat \<Rightarrow> js_string \<Rightarrow> js_string" where
  "slice_ends a b s = take (length s - b - a) (drop a s)"

text \<open>
  The regular expression \<open>/(\*\*.*?\*\*|__.*?__|\*.*?\*|_.*?_)/g\<close>. Each alternative
  is a delimiter, a lazy \<open>.*?\<close> and the delimiter again. \<open>lazy_to d s\<close> matches
  \<open>.*?\<close> followed by \<open>d\<close> at the start of \<open>s\<close>: it tries the delimiter first and
  otherwise takes one more code unit, which the dot must match (no line terminator);
  it gives what \<open>.*?\<close> matched and what follows the delimiter.
\<close>

fun lazy_to :: "js_string \<Rightarrow> js_string \<Rightarrow> (js_string \<times> js_string) option" where
  "lazy_to d [] = (if d = [] then Some ([], []) else None)"
| "lazy_to d (c # cs) =
     (if prefix d (c # cs) then Some ([], drop (length d) (c # cs))
      else if isLineTerminator c then None
      else (case lazy_to d cs of
              None \<Rightarrow> None
            | Some (inner, rest) \<Rightarrow> Some (c # inner, rest)))"

text \<open>One alternative at the start of \<open>s\<close>: the text matched and the rest of \<open>s\<close>.\<close>

definition delimited :: "js_string \<Rightarrow> js_string \<Rightarrow> (js_string \<times> js_string) option" where
  "delimited d s =
     (if prefix d s then
        (case lazy_to d (drop (length d) s) of
           None \<Rightarrow> None
         | Some (inner, rest) \<Rightarrow> Some (d @ inner @ d, rest))
      else None)"

text \<open>The whole expression at the start of \<open>s\<close>: the alternatives are tried from left to
  right, the two double delimiters before the two single ones (42 is \<open>*\<close>, 95 is \<open>_\<close>).\<close>

definition emphasis_match :: "js_string \<Rightarrow> (js_string \<times> js_string) option" where
  "emphasis_match s =
     (case delimited [42, 42] s of
        Some m \<Rightarrow> Some m
      | None \<Rightarrow>
     (case delimited [95, 95] s of
        Some m \<Rightarrow> Some m
      | None \<Rightarrow>
     (case delimited [42] s of
        Some m \<Rightarrow> Some m
      | None \<Rightarrow> delimited [95] s)))"

text \<open>A match is not empty, so the search after it goes on in a shorter string.\<close>

lemma lazy_to_shorter: "lazy_to d s = Some (inner, rest) \<Longrightarrow> length rest \<le> length s"
  by (induction s arbitrary: inner) (auto split: if_splits option.splits)

lemma delimited_shorter:
  "d \<noteq> [] \<Longrightarrow> delimited d s = Some (m, rest) \<Longrightarrow> length rest < length s"
proof -
  assume d: "d \<noteq> []" and m: "delimited d s = Some (m, rest)"
  then obtain inner where p: "prefix d s" and l: "lazy_to d (drop (length d) s) = Some (inner, rest)"
    by (auto simp: delimited_def split: if_splits option.splits)
  from p d have "length (drop (length d) s) < length s"
    by (cases s) (auto simp: prefix_def)
  with lazy_to_shorter [OF l] show ?thesis by simp
qed

lemma emphasis_match_shorter:
  "emphasis_match s = Some (m, rest) \<Longrightarrow> length rest < length s"
  by (auto simp: emphasis_match_def split: option.splits dest: delimited_shorter [rotated])

text \<open>
  \<open>trimmed.split(re)\<close> with the capturing group: the text between the matches and
  the matches themselves, alternating. \<open>cur\<close> is the text since the last match; a
  match is looked for at every position in turn, and the search goes on after it.
\<close>

function split_emphasis :: "js_string \<Rightarrow> js_string \<Rightarrow> js_string list" where
  "split_emphasis cur [] = [cur]"
| "split_emphasis cur (c # cs) =
     (case emphasis_match (c # cs) of
        Some (m, rest) \<Rightarrow> cur # m # split_emphasis [] rest
      | None \<Rightarrow> split_emphasis (cur @ [c]) cs)"
  by pat_completeness auto

termination
  by (relation "measure (\<lambda>(cur, s). length s)") (auto dest: emphasis_match_shorter)

text \<open>A run of text with its emphasis, and the kinds of paragraph the conversion makes
  (their spacing, fixed for each kind, is left out).\<close>

record TextRun =
  run_text :: js_string
  bold :: bool
  italics :: bool

datatype HeadingLevel = HEADING_1 | HEADING_2 | HEADING_3

datatype Paragraph =
  Plain js_string
| Heading HeadingLevel js_string
| Bullet nat js_string
| Runs "TextRun list"

definition toTextRun :: "js_string \<Rightarrow> TextRun" where
  "toTextRun part =
     (if (prefix [42, 42] part \<and> suffix [42, 42] part) \<or> (prefix [95, 95] part \<and> suffix [95, 95] part)
      then \<lparr>run_text = slice_ends 2 2 part, bold = True, italics = False\<rparr>
      else if (prefix [42] part \<and> suffix [42] part) \<or> (prefix [95] part \<and> suffix [95] part)
      then \<lparr>run_text = slice_ends 1 1 part, bold = False, italics = True\<rparr>
      else \<lparr>run_text = part, bold = False, italics = False\<rparr>)"

definition convert_line :: "js_string \<Rightarrow> Paragraph" where
  "convert_line line =
     (let trimmed = trim line in
      if trimmed = [] then Plain []
      else if prefix (js ''# '') trimmed
      then Heading HEADING_1 (replace_first (js ''# '') [] trimmed)
      else if prefix (js ''## '') trimmed
      then Heading HEADING_2 (replace_first (js ''## '') [] trimmed)
      else if prefix (js ''### '') trimmed
      then Heading HEADING_3 (replace_first (js ''### '') [] trimmed)
      else if prefix (js ''- '') trimmed \<or> prefix (js ''* '') trimmed
      then Bullet 0 (drop 2 trimmed)
      else Runs (map toTextRun (split_emphasis [] trimmed)))"

definition markdownToDocxParagraphs :: "js_string \<Rightarrow> Paragraph list" where
  "markdownToDocxParagraphs markdown = map convert_line (split_on 10 markdown)"

text \<open>
  The texts the conversion is stated for. A line text: not empty, without a newline,
  and not ending in whitespace (so that trimming the line leaves it as it is). A span
  text for a delimiter: the dot matches all of it, and the delimiter does not occur in
  it before its end, not even overlapping the closing delimiter. A plain text: without
  \<open>*\<close>, \<open>_\<close> and newline. The text before the span may be empty and otherwise
  starts with neither whitespace, \<open>#\<close> nor \<open>-\<close>; the text after it may be empty and
  otherwise does not end in whitespace.
\<close>

definition line_text :: "js_string \<Rightarrow> bool" where
  "line_text s \<longleftrightarrow> s \<noteq> [] \<and> 10 \<notin> set s \<and> \<not> isWhiteSpace (last s)"

definition span_text :: "js_string \<Rightarrow> js_string \<Rightarrow> bool" where
  "span_text d t \<longleftrightarrow>
     (\<forall>c \<in> set t. \<not> isLineTerminator c) \<and> (\<forall>k < length t. \<not> prefix d (drop k (t @ d)))"

definition plain_text :: "js_string \<Rightarrow> bool" where
  "plain_text s \<longleftrightarrow> 42 \<notin> set s \<and> 95 \<notin> set s \<and> 10 \<notin> set s"

definition leading_text :: "js_string \<Rightarrow> bool" where
  "leading_text s \<longleftrightarrow> s = [] \<or> (\<not> isWhiteSpace (hd s) \<and> hd s \<noteq> 35 \<and> hd s \<noteq> 45)"

definition trailing_text :: "js_string \<Rightarrow> bool" where
  "trailing_text s \<longleftrightarrow> s = [] \<or> \<not> isWhiteSpace (last s)"

text \<open>Blank lines: lines of whitespace only (possibly empty).\<close>

definition blank_lines :: "js_string list \<Rightarrow> bool" where
  "blank_lines bs \<longleftrightarrow> (\<forall>l \<in> set bs. \<forall>c \<in> set l. isWhiteSpace c \<and> c \<noteq> 10)"

definition plain_run :: "js_string \<Rightarrow> TextRun" where
  "plain_run s = \<lparr>run_text = s, bold = False, italics = False\<rparr>"

definition bold_run :: "js_string \<Rightarrow> TextRun" where
  "bold_run s = \<lparr>run_text = s, bold = True, italics = False\<rparr>"

section \<open>Calls that exceed a deadline\<close>

text \<open>A call exceeds a deadline when it settles later than that, or never.\<close>

definition overdue :: "'a promise \<Rightarrow> nat \<Rightarrow> bool" where
  "overdue call ms = (case call of Settles t r \<Rightarrow> ms < t | Pending \<Rightarrow> True)"

definition provider_overdue :: "provider_calls \<Rightarrow> provider \<Rightarrow> nat \<Rightarrow> bool" where
  "provider_overdue w p ms =
     (case p of
        Gemini \<Rightarrow> overdue (callGemini w) ms
      | OpenAI \<Rightarrow> overdue (callOpenAI w) ms
      | DeepSeek \<Rightarrow> overdue (callDeepSeek w) ms
      | Ollama \<Rightarrow> overdue (callOllama w) ms)"

text \<open>Image backends whose Gemini call answers after 500 s, and ones whose Gemini call
  never answers.\<close>

definition slow_images :: image_backends where
  "slow_images =
     \<lparr>gemini_key = True,
      gemini_image = (\<lambda>prompt. Settles 500000 (Inr (Some (js ''AAAA'')))),
      openai_image = (\<lambda>prompt. Pending)\<rparr>"

definition hanging_images :: image_backends where
  "hanging_images = slow_images\<lparr>gemini_image := (\<lambda>prompt. Pending)\<rparr>"

text \<open>Provider calls none of which ever settles, and a server that never answers.\<close>

definition hanging_calls :: provider_calls where
  "hanging_calls =
     \<lparr>callGemini = Pending, callOpenAI = Pending, callDeepSeek = Pending,
      callOllama = Pending\<rparr>"

definition silent_server :: proxy_server where
  "silent_server =
     \<lparr>post_outline = (\<lambda>opts. Pending),
      post_chapter = (\<lambda>opts bookInfo chapter chapterIndex totalChapters. Pending),
      post_cover = (\<lambda>prompt sz. Pending)\<rparr>"

text \<open>
  For a response that arrived \<open>t\<close> ms into the call: its body is not complete by the
  deadline. And for the whole request: it is not complete, response and body, by the
  deadline.
\<close>

definition body_late :: "'a reply \<Rightarrow> nat \<Rightarrow> nat \<Rightarrow> bool" where
  "body_late response t ms =
     (case reply_json response of Settles u r \<Rightarrow> ms < t + u | Pending \<Rightarrow> True)"

definition unfinished :: "'a reply promise \<Rightarrow> nat \<Rightarrow> bool" where
  "unfinished fetch ms =
     (case fetch of
        Pending \<Rightarrow> True
      | Settles t (Inl e) \<Rightarrow> ms < t
      | Settles t (Inr response) \<Rightarrow> ms < t \<or> body_late response t ms)"

text \<open>The message \<open>postJSON\<close> throws for a response that is not \<open>ok\<close> and whose JSON
  has no \<open>error\<close> string.\<close>

definition request_failed :: "nat \<Rightarrow> js_string" where
  "request_failed st = js ''Request failed ('' @ string_of_nat st @ js '')''"

text \<open>Image backends without a Gemini key whose OpenAI call answers after 300 s; and a
  server that sends its status at once and never completes a body (status 200 for an
  outline and a cover, 502 for a chapter).\<close>

definition openai_images :: image_backends where
  "openai_images =
     \<lparr>gemini_key = False,
      gemini_image = (\<lambda>prompt. Pending),
      openai_image = (\<lambda>prompt. Settles 300000 (Inr (Content (js ''BBBB''))))\<rparr>"

definition stalled_server :: proxy_server where
  "stalled_server =
     \<lparr>post_outline = (\<lambda>opts. Settles 50 (Inr \<lparr>reply_status = 200, reply_json = Pending\<rparr>)),
      post_chapter = (\<lambda>opts bookInfo chapter chapterIndex totalChapters.
         Settles 50 (Inr \<lparr>reply_status = 502, reply_json = Pending\<rparr>)),
      post_cover = (\<lambda>prompt sz. Settles 50 (Inr \<lparr>reply_status = 200, reply_json = Pending\<rparr>))\<rparr>"

section \<open>Properties of the retrying wrapper\<close>

declare retry_loop.simps [simp del]





text \<open>
  For any number of retries: the wrapper calls \<open>fetch\<close> at least once and at most
  \<open>retries + 1\<close> times, and before the \<open>j\<close>-th retry it waits \<open>1000 * 2 ^ j\<close> ms.
\<close>

lemma retry_loop_shape:
  "i \<le> Suc n \<Longrightarrow>
   min (Suc i) (Suc n) \<le> fetches (retry_loop f n i e ds) \<and>
   fetches (retry_loop f n i e ds) \<le> Suc n \<and>
   delays (retry_loop f n i e ds) =
     ds @ map (\<lambda>j. 1000 * 2 ^ j) [i ..< fetches (retry_loop f n i e ds) - 1]"
proof (induction f n i e ds rule: retry_loop.induct)
  case (1 f n i e ds)
  show ?case
  proof (cases "i \<le> n")
    case le: True
    show ?thesis
    proof (cases "try_fetch (f i)")
      case (Inl e')
      let ?ds = "if i < n then ds @ [1000 * 2 ^ i] else ds"
      let ?r = "retry_loop f n (Suc i) e' ?ds"
      have eq: "retry_loop f n i e ds = ?r"
        using le Inl by (subst retry_loop.simps) simp
      have ih: "min (Suc (Suc i)) (Suc n) \<le> fetches ?r \<and> fetches ?r \<le> Suc n \<and>
        delays ?r = ?ds @ map (\<lambda>j. 1000 * 2 ^ j) [Suc i ..< fetches ?r - 1]"
        using 1 le Inl by simp
      show ?thesis
      proof (cases "i < n")
        case True
        with ih have "Suc (Suc i) \<le> fetches ?r" by simp
        then have "[i ..< fetches ?r - 1] = i # [Suc i ..< fetches ?r - 1]"
          by (simp add: upt_conv_Cons)
        with ih True show ?thesis unfolding eq by simp
      next
        case False
        with le have "i = n" by simp
        with ih have F: "fetches ?r = Suc n" by simp
        from ih have "delays ?r = ds" unfolding F using \<open>i = n\<close> by simp
        with F \<open>i = n\<close> show ?thesis unfolding eq by simp
      qed
    next
      case (Inr r)
      with le show ?thesis
        by (subst (1 2 3 4) retry_loop.simps) simp
    qed
  next
    case False
    with 1 show ?thesis
      by (subst (1 2 3 4) retry_loop.simps) simp
  qed
qed

lemma fetchWithRetry_shape:
  "1 \<le> fetches (fetchWithRetry f n) \<and> fetches (fetchWithRetry f n) \<le> n + 1 \<and>
   delays (fetchWithRetry f n) =
     map (\<lambda>j. 1000 * 2 ^ j) [0 ..< fetches (fetchWithRetry f n) - 1]"
  using retry_loop_shape [of 0 n f Undefined "[]"] by (simp add: fetchWithRetry_def)



section \<open>Properties of the generation sequencer\<close>

declare chapter_loop.simps [simp del] loop_heads.simps [simp del]

lemma requested_append: "requested (xs @ ys) = requested xs @ requested ys"
  by (induction xs rule: requested.induct) simp_all

lemma requested_save: "requested (case b of None \<Rightarrow> [] | Some x \<Rightarrow> [SaveChapter x i]) = []"
  by (cases b) simp_all

lemma loop_body_throws:
  "chapter_call sv ol opts (index s) = Inl e \<Longrightarrow>
   loop_body sv ol opts b s = (s\<lparr>effects := effects s @ [RequestChapter (index s)]\<rparr>, Some e)"
  by (simp add: loop_body_def chapter_call_def Let_def)

lemma loop_body_returns:
  "chapter_call sv ol opts (index s) = Inr c \<Longrightarrow>
   loop_body sv ol opts b s =
     (s\<lparr>app := (app s)\<lparr>generatedChapters := generatedChapters (app s) @ [chapter_of sv ol opts (index s)]\<rparr>,
        chapters_local := chapters_local s @ [chapter_of sv ol opts (index s)],
        index := Suc (index s),
        effects := effects s @ [RequestChapter (index s)] @
          (case truthy_id b of Some x \<Rightarrow> [SaveChapter x (index s)] | None \<Rightarrow> []) @ [Pause 500]\<rparr>,
      None)"
  by (simp add: loop_body_def chapter_call_def chapter_of_def Let_def)

lemma chapter_loop_post:
  "index s \<le> length (chapters ol) \<Longrightarrow>
   loop_post sv ol opts s (chapter_loop sv ol opts b s)"
proof (induction sv ol opts b s rule: chapter_loop.induct)
  case (1 sv ol opts b s)
  show ?case
  proof (cases "index s < length (chapters ol)")
    case False
    with 1(2) show ?thesis
      by (subst chapter_loop.simps) (auto simp add: loop_post_def)
  next
    case lt: True
    show ?thesis
    proof (cases "chapter_call sv ol opts (index s)")
      case (Inl e)
      with lt show ?thesis
        by (subst chapter_loop.simps) (auto simp add: loop_body_throws loop_post_def requested_append)
    next
      case (Inr c)
      define s' where "s' = fst (loop_body sv ol opts b s)"
      have body: "loop_body sv ol opts b s = (s', None)"
        using Inr by (simp add: loop_body_returns s'_def)
      have idx: "index s' = Suc (index s)"
        using Inr by (simp add: loop_body_returns s'_def)
      have ih: "loop_post sv ol opts s' (chapter_loop sv ol opts b s')"
        using 1(1) [OF lt body [symmetric] refl] lt idx by simp
      have eq: "chapter_loop sv ol opts b s = chapter_loop sv ol opts b s'"
        using lt by (subst chapter_loop.simps) (simp add: body)
      have s'_fields:
        "chapters_local s' = chapters_local s @ [chapter_of sv ol opts (index s)]"
        "generatedChapters (app s') = generatedChapters (app s) @ [chapter_of sv ol opts (index s)]"
        "(app s')\<lparr>generatedChapters := []\<rparr> = (app s)\<lparr>generatedChapters := []\<rparr>"
        "requested (effects s') = requested (effects s) @ [index s]"
        using Inr by (simp_all add: loop_body_returns s'_def requested_append requested_save)
      obtain t thrown where out: "chapter_loop sv ol opts b s' = (t, thrown)"
        by (cases "chapter_loop sv ol opts b s'")
      have le: "Suc (index s) \<le> index t"
        using ih idx unfolding out loop_post_def by simp
      have upt: "[index s ..< index t] = index s # [Suc (index s) ..< index t]"
        using le by (simp add: upt_conv_Cons)
      have upt': "[index s ..< Suc (index t)] = index s # [Suc (index s) ..< Suc (index t)]"
        using le by (simp add: upt_conv_Cons)
      have nothrow: "\<not> isl (chapter_call sv ol opts (index s))"
        using Inr by simp
      have ih': "index t \<le> length (chapters ol)"
        "chapters_local t = chapters_local s' @ map (chapter_of sv ol opts) [index s' ..< index t]"
        "generatedChapters (app t) =
           generatedChapters (app s') @ map (chapter_of sv ol opts) [index s' ..< index t]"
        "(app t)\<lparr>generatedChapters := []\<rparr> = (app s')\<lparr>generatedChapters := []\<rparr>"
        "\<forall>i. index s' \<le> i \<and> i < index t \<longrightarrow> \<not> isl (chapter_call sv ol opts i)"
        "case thrown of
           None \<Rightarrow>
             index t = length (chapters ol) \<and>
             requested (effects t) = requested (effects s') @ [index s' ..< index t]
         | Some e \<Rightarrow>
             index t < length (chapters ol) \<and> chapter_call sv ol opts (index t) = Inl e \<and>
             requested (effects t) = requested (effects s') @ [index s' ..< Suc (index t)]"
        using ih unfolding out loop_post_def by simp_all
      have range: "\<forall>i. index s \<le> i \<and> i < index t \<longrightarrow> \<not> isl (chapter_call sv ol opts i)"
      proof (intro allI impI)
        fix i assume i: "index s \<le> i \<and> i < index t"
        show "\<not> isl (chapter_call sv ol opts i)"
        proof (cases "i = index s")
          case True
          with nothrow show ?thesis by simp
        next
          case False
          with i have "index s' \<le> i \<and> i < index t" using idx by simp
          with ih'(5) show ?thesis by blast
        qed
      qed
      have last: "case thrown of
           None \<Rightarrow>
             index t = length (chapters ol) \<and>
             requested (effects t) = requested (effects s) @ [index s ..< index t]
         | Some e \<Rightarrow>
             index t < length (chapters ol) \<and> chapter_call sv ol opts (index t) = Inl e \<and>
             requested (effects t) = requested (effects s) @ [index s ..< Suc (index t)]"
        using ih'(6) s'_fields(4) idx
        by (simp add: upt upt' del: upt_Suc split: option.splits)
      show ?thesis
        unfolding eq out loop_post_def
        using le ih'(1-4) range last s'_fields(1-3) idx
        by (simp add: upt del: upt_Suc)
    qed
  qed
qed

lemma loop_start_fields:
  "index (loop_start st resume) = (if resume then length (generatedChapters st) else 0)"
  "chapters_local (loop_start st resume) = (if resume then generatedChapters st else [])"
  "generatedChapters (app (loop_start st resume)) = (if resume then generatedChapters st else [])"
  "effects (loop_start st resume) = []"
  "(app (loop_start st resume))\<lparr>generatedChapters := []\<rparr> =
     st\<lparr>step := GENERATING, error := None, generatedChapters := []\<rparr>"
  by (simp_all add: loop_start_def Let_def)

lemma direct_never_throws:
  "\<not> isl (result (generateChapterContent w))"
  unfolding generateChapterContent_def
  by (simp split: prod.splits option.splits)

lemma direct_call_never_throws:
  "chapter_service sv = direct_chapter_service calls \<Longrightarrow> \<not> isl (chapter_call sv ol opts i)"
  by (simp add: chapter_call_def direct_chapter_service_def direct_never_throws)

lemma prefix_upt: "k \<le> m \<Longrightarrow> prefix [n ..< k] [n ..< m]"
proof (cases "n \<le> k")
  case True
  assume "k \<le> m"
  with True have "[n ..< m] = [n ..< k] @ [k ..< m]"
    by (metis le_Suc_ex upt_add_eq_append)
  then show ?thesis by (simp add: prefix_def)
next
  case False
  then show ?thesis by simp
qed

text \<open>
  Claim C3. Let the outline have \<open>M\<close> chapters and let \<open>N \<le> M\<close> chapters be generated
  already. A resumed run requests content only for indices from \<open>N\<close> on, in order, and
  never beyond \<open>M - 1\<close>: the requested indices are an initial part of \<open>N, ..., M - 1\<close>.
  When every chapter call returns (as the calls of the multi-provider service always
  do), the indices requested are exactly \<open>N, ..., M - 1\<close>, the run completes, and the
  final chapter sequence, in the component's state and in the assembled book, is the
  original \<open>N\<close> chapters followed by the \<open>M - N\<close> new ones, titled as the outline's
  chapters \<open>N, ..., M - 1\<close> in their order.
\<close>

theorem resume_generates_remaining:
  assumes ol: "outline st = Some ol" and opts: "options st = Some opts"
    and le: "length (generatedChapters st) \<le> length (chapters ol)"
  shows
   "prefix (requested (snd (handleStartGeneration sv st True)))
      [length (generatedChapters st) ..< length (chapters ol)] \<and>
    set (requested (snd (handleStartGeneration sv st True))) \<subseteq>
      {length (generatedChapters st) ..< length (chapters ol)} \<and>
    ((\<forall>i. length (generatedChapters st) \<le> i \<and> i < length (chapters ol) \<longrightarrow>
          \<not> isl (chapter_call sv ol opts i)) \<longrightarrow>
       requested (snd (handleStartGeneration sv st True)) =
         [length (generatedChapters st) ..< length (chapters ol)] \<and>
       step (fst (handleStartGeneration sv st True)) = COMPLETED \<and>
       generatedChapters (fst (handleStartGeneration sv st True)) =
         generatedChapters st @
         map (chapter_of sv ol opts) [length (generatedChapters st) ..< length (chapters ol)] \<and>
       map_option fullChapters (generatedBook (fst (handleStartGeneration sv st True))) =
         Some (generatedChapters st @
           map (chapter_of sv ol opts) [length (generatedChapters st) ..< length (chapters ol)]) \<and>
       map title (generatedChapters (fst (handleStartGeneration sv st True))) =
         map title (generatedChapters st) @
         drop (length (generatedChapters st)) (map title (chapters ol))) \<and>
    (chapter_service sv = direct_chapter_service calls \<longrightarrow>
       (\<forall>i. \<not> isl (chapter_call sv ol opts i)))"
proof -
  let ?N = "length (generatedChapters st)" and ?M = "length (chapters ol)"
  let ?s0 = "loop_start st True"
  obtain t thrown where out: "chapter_loop sv ol opts (currentBookId st) ?s0 = (t, thrown)"
    by (cases "chapter_loop sv ol opts (currentBookId st) ?s0")
  have post: "loop_post sv ol opts ?s0 (t, thrown)"
    using chapter_loop_post [of ?s0 ol sv opts "currentBookId st"] le
    by (simp add: loop_start_fields out)
  have req_complete: "requested (case truthy_id (currentBookId st) of None \<Rightarrow> [] | Some b \<Rightarrow> [CompleteBook b]) = []"
    by (cases "truthy_id (currentBookId st)") simp_all
  have effs: "requested (snd (handleStartGeneration sv st True)) = requested (effects t)"
    using ol opts out req_complete
    by (simp add: handleStartGeneration_def requested_append split: option.splits)
  have idx: "?N \<le> index t" "index t \<le> ?M"
    using post by (simp_all add: loop_post_def loop_start_fields)
  have req: "requested (effects t) = [?N ..< (case thrown of None \<Rightarrow> index t | Some e \<Rightarrow> Suc (index t))]"
    and lt: "thrown \<noteq> None \<longrightarrow> index t < ?M"
    using post by (auto simp add: loop_post_def loop_start_fields split: option.splits)
  have bound: "(case thrown of None \<Rightarrow> index t | Some e \<Rightarrow> Suc (index t)) \<le> ?M"
    using idx lt by (cases thrown) auto
  have p1: "prefix (requested (snd (handleStartGeneration sv st True))) [?N ..< ?M]"
    unfolding effs req using bound by (rule prefix_upt)
  have p2: "set (requested (snd (handleStartGeneration sv st True))) \<subseteq> {?N ..< ?M}"
    using p1 by (metis set_mono_prefix set_upt)
  have mapt: "map title (map (chapter_of sv ol opts) [?N ..< ?M]) = drop ?N (map title (chapters ol))"
    by (rule nth_equalityI) (simp_all add: chapter_of_def)
  have p3: "(\<forall>i. ?N \<le> i \<and> i < ?M \<longrightarrow> \<not> isl (chapter_call sv ol opts i)) \<longrightarrow>
       requested (snd (handleStartGeneration sv st True)) = [?N ..< ?M] \<and>
       step (fst (handleStartGeneration sv st True)) = COMPLETED \<and>
       generatedChapters (fst (handleStartGeneration sv st True)) =
         generatedChapters st @ map (chapter_of sv ol opts) [?N ..< ?M] \<and>
       map_option fullChapters (generatedBook (fst (handleStartGeneration sv st True))) =
         Some (generatedChapters st @ map (chapter_of sv ol opts) [?N ..< ?M]) \<and>
       map title (generatedChapters (fst (handleStartGeneration sv st True))) =
         map title (generatedChapters st) @ drop ?N (map title (chapters ol))"
  proof
    assume ok: "\<forall>i. ?N \<le> i \<and> i < ?M \<longrightarrow> \<not> isl (chapter_call sv ol opts i)"
    have none: "thrown = None"
    proof (cases thrown)
      case (Some e)
      with post have "index t < ?M" "chapter_call sv ol opts (index t) = Inl e"
        by (simp_all add: loop_post_def)
      with ok idx show ?thesis by auto
    qed simp
    with post have fin: "index t = ?M"
      "chapters_local t = generatedChapters st @ map (chapter_of sv ol opts) [?N ..< ?M]"
      "generatedChapters (app t) = generatedChapters st @ map (chapter_of sv ol opts) [?N ..< ?M]"
      by (simp_all add: loop_post_def loop_start_fields)
    show "requested (snd (handleStartGeneration sv st True)) = [?N ..< ?M] \<and>
       step (fst (handleStartGeneration sv st True)) = COMPLETED \<and>
       generatedChapters (fst (handleStartGeneration sv st True)) =
         generatedChapters st @ map (chapter_of sv ol opts) [?N ..< ?M] \<and>
       map_option fullChapters (generatedBook (fst (handleStartGeneration sv st True))) =
         Some (generatedChapters st @ map (chapter_of sv ol opts) [?N ..< ?M]) \<and>
       map title (generatedChapters (fst (handleStartGeneration sv st True))) =
         map title (generatedChapters st) @ drop ?N (map title (chapters ol))"
      unfolding effs req
      using none fin ol opts out mapt
      by (simp add: handleStartGeneration_def)
  qed
  have p4: "chapter_service sv = direct_chapter_service calls \<longrightarrow>
       (\<forall>i. \<not> isl (chapter_call sv ol opts i))"
    by (simp add: direct_call_never_throws)
  from p1 p2 p3 p4 show ?thesis by blast
qed

lemma loop_body_inv:
  assumes "loop_inv ol s" "index s < length (chapters ol)"
  shows "loop_inv ol (fst (loop_body sv ol opts b s))"
proof (cases "chapter_call sv ol opts (index s)")
  case (Inl e)
  with assms show ?thesis by (simp add: loop_body_throws loop_inv_def)
next
  case (Inr c)
  have "take (Suc (index s)) (map title (chapters ol)) =
        take (index s) (map title (chapters ol)) @ [title (chapters ol ! index s)]"
    using assms(2) by (simp add: take_Suc_conv_app_nth)
  with Inr assms show ?thesis
    by (simp add: loop_body_returns loop_inv_def chapter_of_def)
qed

lemma loop_start_inv_fresh: "loop_inv ol (loop_start st False)"
  by (simp add: loop_inv_def loop_start_def Let_def)

lemma loop_start_inv_resume:
  "length (generatedChapters st) \<le> length (chapters ol) \<Longrightarrow>
   map title (generatedChapters st) = take (length (generatedChapters st)) (map title (chapters ol)) \<Longrightarrow>
   loop_inv ol (loop_start st True)"
  by (simp add: loop_inv_def loop_start_def Let_def)

lemma requested_update: "requested (case b of None \<Rightarrow> [] | Some x \<Rightarrow> [UpdateBookWithOutline x]) = []"
  by (cases b) simp_all

lemma wizard_accepts:
  "outline_service sv fd = Inr (Outline ol) \<Longrightarrow> 0 < length (chapters ol) \<Longrightarrow>
   step (fst (handleWizardSubmit sv st fd)) = OUTLINE_REVIEW \<and>
   outline (fst (handleWizardSubmit sv st fd)) = Some (Outline ol) \<and>
   error (fst (handleWizardSubmit sv st fd)) = None"
  by (simp add: handleWizardSubmit_def Let_def split: option.splits)

lemma wizard_accepts_unshaped:
  "outline_service sv fd = Inr (Unshaped len) \<Longrightarrow> len \<noteq> Some 0 \<Longrightarrow>
   step (fst (handleWizardSubmit sv st fd)) = OUTLINE_REVIEW \<and>
   outline (fst (handleWizardSubmit sv st fd)) = Some (Unshaped len) \<and>
   error (fst (handleWizardSubmit sv st fd)) = None"
  by (simp add: handleWizardSubmit_def Let_def split: option.splits)

lemma wizard_rejects:
  "\<not> (\<exists>ol. outline_service sv fd = Inr (Outline ol) \<and> 0 < length (chapters ol)) \<Longrightarrow>
   \<not> (\<exists>len. outline_service sv fd = Inr (Unshaped len) \<and> len \<noteq> Some 0) \<Longrightarrow>
   step (fst (handleWizardSubmit sv st fd)) = INPUT \<and>
   error (fst (handleWizardSubmit sv st fd)) \<noteq> None \<and>
   outline (fst (handleWizardSubmit sv st fd)) = outline st \<and>
   generatedChapters (fst (handleWizardSubmit sv st fd)) = generatedChapters st"
  by (auto simp add: handleWizardSubmit_def Let_def outline_failed_def
      split: option.splits sum.splits outline_result.splits)

lemma wizard_requests_nothing: "requested (snd (handleWizardSubmit sv st fd)) = []"
  by (auto simp add: handleWizardSubmit_def Let_def requested_update
      split: option.splits sum.splits outline_result.splits)

lemma no_outline_no_generation:
  "outline t = None \<Longrightarrow> handleStartGeneration sv t resume = (t, [])"
  by (simp add: handleStartGeneration_def)

text \<open>
  Claim C9, as stated, fails: an outline result without a chapter list can be accepted.
  When the parsed answer of a provider has \<open>"chapters": {}\<close>, the value is truthy and
  its \<open>length\<close> is \<open>undefined\<close>, which is not \<open>0\<close>; the wizard stores the result and
  moves on to the review step.
\<close>

theorem outline_acceptance_counterexample:
  "step (fst (handleWizardSubmit unshaped_services initial_state demo_options)) = OUTLINE_REVIEW \<and>
   outline (fst (handleWizardSubmit unshaped_services initial_state demo_options)) =
     Some (Unshaped None) \<and>
   error (fst (handleWizardSubmit unshaped_services initial_state demo_options)) = None"
  by (simp add: handleWizardSubmit_def unshaped_services_def demo_services_def
      initial_state_def truthy_id_def)

text \<open>
  Claim C9, as the code has it. For any submitted options, the wizard accepts an
  outline result (moves on to the review step, storing the result) exactly when its
  \<open>chapters\<close> value is truthy and has a \<open>length\<close> other than \<open>0\<close>: a result whose
  \<open>chapters\<close> is a list is accepted exactly when the list has positive length, and a
  result whose \<open>chapters\<close> is truthy but not a list is accepted unless its \<open>length\<close>
  property is \<open>0\<close>. A falsy result, a missing chapter list, an empty chapter list, a
  \<open>chapters\<close> value of length \<open>0\<close> or an error from the service all end in the input step
  with an error message, the stored outline and chapter list unchanged and no chapter
  requested; and without a stored outline, starting chapter generation does nothing.
\<close>

theorem outline_acceptance:
  "(step (fst (handleWizardSubmit sv st fd)) = OUTLINE_REVIEW \<longleftrightarrow>
      (\<exists>ol. outline_service sv fd = Inr (Outline ol) \<and> 0 < length (chapters ol)) \<or>
      (\<exists>len. outline_service sv fd = Inr (Unshaped len) \<and> len \<noteq> Some 0)) \<and>
   (outline_service sv fd = Inr (Outline ol) \<longrightarrow>
      (step (fst (handleWizardSubmit sv st fd)) = OUTLINE_REVIEW \<longleftrightarrow> 0 < length (chapters ol))) \<and>
   (outline_service sv fd = Inr (Outline ol) \<and> 0 < length (chapters ol) \<longrightarrow>
      outline (fst (handleWizardSubmit sv st fd)) = Some (Outline ol) \<and>
      error (fst (handleWizardSubmit sv st fd)) = None) \<and>
   (outline_service sv fd = Inr (Unshaped len) \<and> len \<noteq> Some 0 \<longrightarrow>
      outline (fst (handleWizardSubmit sv st fd)) = Some (Unshaped len) \<and>
      error (fst (handleWizardSubmit sv st fd)) = None) \<and>
   (outline_service sv fd \<in> {Inr Nothing, Inr NoChapters, Inr (Unshaped (Some 0))} \<or>
    (\<exists>ol. outline_service sv fd = Inr (Outline ol) \<and> chapters ol = []) \<or>
    isl (outline_service sv fd) \<longrightarrow>
      step (fst (handleWizardSubmit sv st fd)) = INPUT \<and>
      error (fst (handleWizardSubmit sv st fd)) \<noteq> None \<and>
      outline (fst (handleWizardSubmit sv st fd)) = outline st \<and>
      generatedChapters (fst (handleWizardSubmit sv st fd)) = generatedChapters st \<and>
      requested (snd (handleWizardSubmit sv st fd)) = []) \<and>
   (outline t = None \<longrightarrow> handleStartGeneration sv t resume = (t, []))"
proof -
  let ?ok = "(\<exists>ol. outline_service sv fd = Inr (Outline ol) \<and> 0 < length (chapters ol)) \<or>
      (\<exists>len. outline_service sv fd = Inr (Unshaped len) \<and> len \<noteq> Some 0)"
  have a: "step (fst (handleWizardSubmit sv st fd)) = OUTLINE_REVIEW \<longleftrightarrow> ?ok"
  proof (cases ?ok)
    case True
    then show ?thesis
      using wizard_accepts [of sv fd _ st] wizard_accepts_unshaped [of sv fd _ st] by blast
  next
    case False
    then have "step (fst (handleWizardSubmit sv st fd)) = INPUT"
      using wizard_rejects [of sv fd st] by blast
    with False show ?thesis by simp
  qed
  have a': "outline_service sv fd = Inr (Outline ol) \<longrightarrow>
      (step (fst (handleWizardSubmit sv st fd)) = OUTLINE_REVIEW \<longleftrightarrow> 0 < length (chapters ol))"
    unfolding a by auto
  have b: "outline_service sv fd = Inr (Outline ol) \<and> 0 < length (chapters ol) \<longrightarrow>
      outline (fst (handleWizardSubmit sv st fd)) = Some (Outline ol) \<and>
      error (fst (handleWizardSubmit sv st fd)) = None"
    using wizard_accepts [of sv fd ol st] by simp
  have b': "outline_service sv fd = Inr (Unshaped len) \<and> len \<noteq> Some 0 \<longrightarrow>
      outline (fst (handleWizardSubmit sv st fd)) = Some (Unshaped len) \<and>
      error (fst (handleWizardSubmit sv st fd)) = None"
    using wizard_accepts_unshaped [of sv fd len st] by simp
  have c: "outline_service sv fd \<in> {Inr Nothing, Inr NoChapters, Inr (Unshaped (Some 0))} \<or>
    (\<exists>ol. outline_service sv fd = Inr (Outline ol) \<and> chapters ol = []) \<or>
    isl (outline_service sv fd) \<longrightarrow>
      step (fst (handleWizardSubmit sv st fd)) = INPUT \<and>
      error (fst (handleWizardSubmit sv st fd)) \<noteq> None \<and>
      outline (fst (handleWizardSubmit sv st fd)) = outline st \<and>
      generatedChapters (fst (handleWizardSubmit sv st fd)) = generatedChapters st \<and>
      requested (snd (handleWizardSubmit sv st fd)) = []"
  proof
    assume bad: "outline_service sv fd \<in> {Inr Nothing, Inr NoChapters, Inr (Unshaped (Some 0))} \<or>
      (\<exists>ol. outline_service sv fd = Inr (Outline ol) \<and> chapters ol = []) \<or>
      isl (outline_service sv fd)"
    then have "\<not> (\<exists>ol. outline_service sv fd = Inr (Outline ol) \<and> 0 < length (chapters ol))"
      "\<not> (\<exists>len. outline_service sv fd = Inr (Unshaped len) \<and> len \<noteq> Some 0)"
      by auto
    from wizard_rejects [OF this, of st] wizard_requests_nothing [of sv st fd]
    show "step (fst (handleWizardSubmit sv st fd)) = INPUT \<and>
      error (fst (handleWizardSubmit sv st fd)) \<noteq> None \<and>
      outline (fst (handleWizardSubmit sv st fd)) = outline st \<and>
      generatedChapters (fst (handleWizardSubmit sv st fd)) = generatedChapters st \<and>
      requested (snd (handleWizardSubmit sv st fd)) = []"
      by simp
  qed
  have d: "outline t = None \<longrightarrow> handleStartGeneration sv t resume = (t, [])"
    by (simp add: no_outline_no_generation)
  from a a' b b' c d show ?thesis by blast
qed

theorem outline_acceptance_witness:
  "step (fst (handleWizardSubmit demo_services initial_state demo_options)) = OUTLINE_REVIEW \<and>
   outline (fst (handleWizardSubmit demo_services initial_state demo_options)) =
     Some (Outline demo_outline) \<and>
   outline (fst (handleWizardSubmit unshaped_services initial_state demo_options)) =
     Some (Unshaped None) \<and>
   step (fst (handleWizardSubmit empty_outline_services initial_state demo_options)) = INPUT \<and>
   outline (fst (handleWizardSubmit empty_outline_services initial_state demo_options)) = None \<and>
   handleStartGeneration empty_outline_services initial_state False = (initial_state, [])"
  using
    outline_acceptance [of demo_services initial_state demo_options demo_outline None
      initial_state False]
    outline_acceptance [of unshaped_services initial_state demo_options demo_outline None
      initial_state False]
    outline_acceptance [of empty_outline_services initial_state demo_options
      "demo_outline\<lparr>chapters := []\<rparr>" "Some 0" initial_state False]
  by (simp add: demo_services_def empty_outline_services_def unshaped_services_def
      demo_outline_def initial_state_def)

theorem resume_generates_remaining_witness:
  "requested (snd (handleStartGeneration demo_services demo_paused True)) = [1, 2] \<and>
   step (fst (handleStartGeneration demo_services demo_paused True)) = COMPLETED \<and>
   generatedChapters (fst (handleStartGeneration demo_services demo_paused True)) =
     [\<lparr>title = js ''A'', content = js ''# A''\<rparr>, \<lparr>title = js ''B'', content = js ''# B''\<rparr>,
      \<lparr>title = js ''C'', content = js ''# C''\<rparr>]"
  using resume_generates_remaining [of demo_paused demo_outline demo_options demo_services]
  by (simp add: demo_paused_def demo_outline_def demo_options_def demo_services_def
      initial_state_def chapter_call_def chapter_of_def upt_rec [of 1] upt_rec [of 2] upt_rec [of 3]
      numeral_3_eq_3 numeral_2_eq_2 js_def)

section \<open>Properties of the fallback orchestrators\<close>

lemma first_success_called:
  "fst (first_success attempt ps) =
     takeWhile (\<lambda>p. isl (attempt p)) ps @ take 1 (dropWhile (\<lambda>p. isl (attempt p)) ps)"
  by (induction ps) (auto split: sum.splits prod.splits)

lemma first_success_result:
  "snd (first_success attempt ps) =
     (case dropWhile (\<lambda>p. isl (attempt p)) ps of
        [] \<Rightarrow> Inl (map (\<lambda>p. projl (attempt p)) ps)
      | p # _ \<Rightarrow> Inr (projr (attempt p)))"
proof (induction ps)
  case Nil
  show ?case by simp
next
  case (Cons a ps)
  show ?case
  proof (cases "attempt a")
    case (Inl e)
    obtain called r where fs: "first_success attempt ps = (called, r)"
      by (cases "first_success attempt ps")
    with Cons have r: "r = (case dropWhile (\<lambda>p. isl (attempt p)) ps of
        [] \<Rightarrow> Inl (map (\<lambda>p. projl (attempt p)) ps)
      | p # _ \<Rightarrow> Inr (projr (attempt p)))"
      by simp
    show ?thesis
    proof (cases "dropWhile (\<lambda>p. isl (attempt p)) ps")
      case Nil
      with Inl fs r show ?thesis by (simp del: dropWhile_eq_Nil_conv)
    next
      case (Cons b bs)
      with Inl fs r show ?thesis by simp
    qed
  next
    case (Inr v)
    then show ?thesis by simp
  qed
qed

lemma outline_is_first_success:
  "map fst (invoked (generateBookOutline parse w)) =
     fst (first_success (outline_outcome parse w) priority) \<and>
   (case snd (first_success (outline_outcome parse w) priority) of
      Inr v \<Rightarrow> result (generateBookOutline parse w) = Inr v
    | Inl es \<Rightarrow>
        result (generateBookOutline parse w) =
          Inl (js ''All AI providers failed. '' @
            join (js '', '')
              (map (\<lambda>(p, e). p @ js '': '' @ e)
                 (zip [js ''Gemini'', js ''OpenAI'', js ''DeepSeek'', js ''Ollama''] es))))"
  unfolding generateBookOutline_def outline_outcome_def priority_def
  by (auto split: prod.splits sum.splits simp: js_def)

lemma chapter_is_first_success:
  "map fst (invoked (generateChapterContent w)) =
     fst (first_success (chapter_outcome w) priority) \<and>
   (case snd (first_success (chapter_outcome w) priority) of
      Inr c \<Rightarrow> result (generateChapterContent w) = Inr c
    | Inl es \<Rightarrow> result (generateChapterContent w) = Inr chapter_failed)"
  unfolding generateChapterContent_def chapter_outcome_def priority_def
  by (auto split: prod.splits sum.splits option.splits)

lemma outline_attempt_cong:
  "callGemini w' = callGemini w \<Longrightarrow> outline_attempt parse w' Gemini = outline_attempt parse w Gemini"
  "callOpenAI w' = callOpenAI w \<Longrightarrow> outline_attempt parse w' OpenAI = outline_attempt parse w OpenAI"
  by (simp_all add: outline_attempt_def)

lemma chapter_attempt_cong:
  "callGemini w' = callGemini w \<Longrightarrow> chapter_attempt w' Gemini = chapter_attempt w Gemini"
  "callOpenAI w' = callOpenAI w \<Longrightarrow> chapter_attempt w' OpenAI = chapter_attempt w OpenAI"
  by (simp_all add: chapter_attempt_def)

lemma outline_second:
  "outline_attempt parse w Gemini = (t1, Inl e1, q1) \<Longrightarrow>
   outline_attempt parse w OpenAI = (t2, Inr v, q2) \<Longrightarrow>
   generateBookOutline parse w =
     \<lparr>result = Inr v, invoked = [(Gemini, q1), (OpenAI, q2)], elapsed = t1 + t2\<rparr>"
  by (simp add: generateBookOutline_def)

lemma chapter_second:
  "chapter_attempt w Gemini = (t1, None, q1) \<Longrightarrow>
   chapter_attempt w OpenAI = (t2, Some c, q2) \<Longrightarrow>
   generateChapterContent w =
     \<lparr>result = Inr c, invoked = [(Gemini, q1), (OpenAI, q2)], elapsed = t1 + t2\<rparr>"
  by (simp add: generateChapterContent_def)

lemma outline_second_ex:
  assumes "isl (outline_outcome parse w Gemini)" "outline_outcome parse w OpenAI = Inr v"
  shows "\<exists>t1 e1 q1 t2 q2. outline_attempt parse w Gemini = (t1, Inl e1, q1) \<and>
    outline_attempt parse w OpenAI = (t2, Inr v, q2)"
proof -
  obtain t1 r1 q1 where a1: "outline_attempt parse w Gemini = (t1, r1, q1)"
    by (cases "outline_attempt parse w Gemini") auto
  obtain t2 r2 q2 where a2: "outline_attempt parse w OpenAI = (t2, r2, q2)"
    by (cases "outline_attempt parse w OpenAI") auto
  from assms a1 a2 show ?thesis
    by (cases r1) (auto simp: outline_outcome_def)
qed

lemma chapter_second_ex:
  assumes "isl (chapter_outcome w Gemini)" "chapter_outcome w OpenAI = Inr c"
  shows "\<exists>t1 q1 t2 q2. chapter_attempt w Gemini = (t1, None, q1) \<and>
    chapter_attempt w OpenAI = (t2, Some c, q2)"
proof -
  obtain t1 r1 q1 where a1: "chapter_attempt w Gemini = (t1, r1, q1)"
    by (cases "chapter_attempt w Gemini") auto
  obtain t2 r2 q2 where a2: "chapter_attempt w OpenAI = (t2, r2, q2)"
    by (cases "chapter_attempt w OpenAI") auto
  from assms a1 a2 show ?thesis
    by (cases r1; cases r2) (auto simp: chapter_outcome_def)
qed

lemma outline_refines:
  "map fst (invoked (generateBookOutline parse w)) =
     fst (first_success (outline_outcome parse w) priority)"
  "snd (first_success (outline_outcome parse w) priority) = Inr v \<longrightarrow>
     result (generateBookOutline parse w) = Inr v"
  "isl (snd (first_success (outline_outcome parse w) priority)) \<longrightarrow>
     isl (result (generateBookOutline parse w))"
  using outline_is_first_success [of parse w] by (auto split: sum.splits)

lemma chapter_refines:
  "map fst (invoked (generateChapterContent w)) =
     fst (first_success (chapter_outcome w) priority)"
  "snd (first_success (chapter_outcome w) priority) = Inr c \<longrightarrow>
     result (generateChapterContent w) = Inr c"
  using chapter_is_first_success [of w] by (auto split: sum.splits)

lemma first_success_example:
  "isl (attempt A) \<and> attempt B = Inr x \<longrightarrow>
     first_success attempt [A, B, C] = ([A, B], Inr x)"
  by (auto simp: isl_def)

lemma outline_example:
  "isl (outline_outcome parse w Gemini) \<and> outline_outcome parse w OpenAI = Inr v \<longrightarrow>
     result (generateBookOutline parse w) = Inr v \<and>
     map fst (invoked (generateBookOutline parse w)) = [Gemini, OpenAI]"
proof
  assume h: "isl (outline_outcome parse w Gemini) \<and> outline_outcome parse w OpenAI = Inr v"
  with outline_second_ex [of parse w v] obtain t1 e1 q1 t2 q2 where
    a: "outline_attempt parse w Gemini = (t1, Inl e1, q1)"
       "outline_attempt parse w OpenAI = (t2, Inr v, q2)"
    by blast
  show "result (generateBookOutline parse w) = Inr v \<and>
     map fst (invoked (generateBookOutline parse w)) = [Gemini, OpenAI]"
    by (simp add: outline_second [OF a])
qed

lemma chapter_example:
  "isl (chapter_outcome w Gemini) \<and> chapter_outcome w OpenAI = Inr c \<longrightarrow>
     result (generateChapterContent w) = Inr c \<and>
     map fst (invoked (generateChapterContent w)) = [Gemini, OpenAI]"
proof
  assume h: "isl (chapter_outcome w Gemini) \<and> chapter_outcome w OpenAI = Inr c"
  with chapter_second_ex [of w c] obtain t1 q1 t2 q2 where
    a: "chapter_attempt w Gemini = (t1, None, q1)" "chapter_attempt w OpenAI = (t2, Some c, q2)"
    by blast
  show "result (generateChapterContent w) = Inr c \<and>
     map fst (invoked (generateChapterContent w)) = [Gemini, OpenAI]"
    by (simp add: chapter_second [OF a])
qed

lemma outline_later_providers_irrelevant:
  "callGemini w' = callGemini w \<and> callOpenAI w' = callOpenAI w \<and>
   isl (outline_outcome parse w Gemini) \<and> \<not> isl (outline_outcome parse w OpenAI) \<longrightarrow>
     generateBookOutline parse w' = generateBookOutline parse w"
proof
  assume h: "callGemini w' = callGemini w \<and> callOpenAI w' = callOpenAI w \<and>
    isl (outline_outcome parse w Gemini) \<and> \<not> isl (outline_outcome parse w OpenAI)"
  then obtain y where y: "outline_outcome parse w OpenAI = Inr y"
    by (cases "outline_outcome parse w OpenAI") auto
  with h outline_second_ex [of parse w y] obtain t1 e1 q1 t2 q2 where
    a: "outline_attempt parse w Gemini = (t1, Inl e1, q1)"
       "outline_attempt parse w OpenAI = (t2, Inr y, q2)"
    by blast
  with h outline_attempt_cong [of w' w parse]
  have a': "outline_attempt parse w' Gemini = (t1, Inl e1, q1)"
       "outline_attempt parse w' OpenAI = (t2, Inr y, q2)"
    by simp_all
  show "generateBookOutline parse w' = generateBookOutline parse w"
    by (simp add: outline_second [OF a] outline_second [OF a'])
qed

lemma chapter_later_providers_irrelevant:
  "callGemini w' = callGemini w \<and> callOpenAI w' = callOpenAI w \<and>
   isl (chapter_outcome w Gemini) \<and> \<not> isl (chapter_outcome w OpenAI) \<longrightarrow>
     generateChapterContent w' = generateChapterContent w"
proof
  assume h: "callGemini w' = callGemini w \<and> callOpenAI w' = callOpenAI w \<and>
    isl (chapter_outcome w Gemini) \<and> \<not> isl (chapter_outcome w OpenAI)"
  then obtain y where y: "chapter_outcome w OpenAI = Inr y"
    by (cases "chapter_outcome w OpenAI") auto
  with h chapter_second_ex [of w y] obtain t1 q1 t2 q2 where
    a: "chapter_attempt w Gemini = (t1, None, q1)"
       "chapter_attempt w OpenAI = (t2, Some y, q2)"
    by blast
  with h chapter_attempt_cong [of w' w]
  have a': "chapter_attempt w' Gemini = (t1, None, q1)"
       "chapter_attempt w' OpenAI = (t2, Some y, q2)"
    by simp_all
  show "generateChapterContent w' = generateChapterContent w"
    by (simp add: chapter_second [OF a] chapter_second [OF a'])
qed

text \<open>
  Claim C1. Both orchestrators are the first-success algorithm run on the fixed provider
  list Gemini, OpenAI, DeepSeek, Ollama: they call the providers in that order and
  return the first success at once. For every provider list, the providers called by
  the algorithm are the leading failures followed by the first success only, so no
  provider after the first success is called, and the result is that provider's output
  (every failure, when none succeeds). With providers A (fails), B (succeeds), C the
  result is B's output and the providers called are A and B. In the code, when Gemini
  fails and OpenAI succeeds the result is OpenAI's output, the providers called are
  Gemini and OpenAI, and whatever the DeepSeek and Ollama calls would do has no effect
  on the run.
\<close>

theorem fallback_first_success:
  "map fst (invoked (generateBookOutline parse w)) =
     fst (first_success (outline_outcome parse w) priority) \<and>
   (snd (first_success (outline_outcome parse w) priority) = Inr v \<longrightarrow>
      result (generateBookOutline parse w) = Inr v) \<and>
   (isl (snd (first_success (outline_outcome parse w) priority)) \<longrightarrow>
      isl (result (generateBookOutline parse w))) \<and>
   map fst (invoked (generateChapterContent w)) =
     fst (first_success (chapter_outcome w) priority) \<and>
   (snd (first_success (chapter_outcome w) priority) = Inr c \<longrightarrow>
      result (generateChapterContent w) = Inr c) \<and>
   fst (first_success attempt ps) =
     takeWhile (\<lambda>p. isl (attempt p)) ps @ take 1 (dropWhile (\<lambda>p. isl (attempt p)) ps) \<and>
   snd (first_success attempt ps) =
     (case dropWhile (\<lambda>p. isl (attempt p)) ps of
        [] \<Rightarrow> Inl (map (\<lambda>p. projl (attempt p)) ps)
      | p # _ \<Rightarrow> Inr (projr (attempt p))) \<and>
   (isl (attempt A) \<and> attempt B = Inr x \<longrightarrow>
      first_success attempt [A, B, C] = ([A, B], Inr x)) \<and>
   (isl (outline_outcome parse w Gemini) \<and> outline_outcome parse w OpenAI = Inr v \<longrightarrow>
      result (generateBookOutline parse w) = Inr v \<and>
      map fst (invoked (generateBookOutline parse w)) = [Gemini, OpenAI]) \<and>
   (isl (chapter_outcome w Gemini) \<and> chapter_outcome w OpenAI = Inr c \<longrightarrow>
      result (generateChapterContent w) = Inr c \<and>
      map fst (invoked (generateChapterContent w)) = [Gemini, OpenAI]) \<and>
   (callGemini w' = callGemini w \<and> callOpenAI w' = callOpenAI w \<and>
    isl (outline_outcome parse w Gemini) \<and> \<not> isl (outline_outcome parse w OpenAI) \<longrightarrow>
      generateBookOutline parse w' = generateBookOutline parse w) \<and>
   (callGemini w' = callGemini w \<and> callOpenAI w' = callOpenAI w \<and>
    isl (chapter_outcome w Gemini) \<and> \<not> isl (chapter_outcome w OpenAI) \<longrightarrow>
      generateChapterContent w' = generateChapterContent w)"
proof -
  note parts =
    outline_refines chapter_refines
    first_success_called [of attempt ps] first_success_result [of attempt ps]
    first_success_example [of attempt A B x C]
    outline_example [of parse w v] chapter_example [of w c]
    outline_later_providers_irrelevant [of w' w parse]
    chapter_later_providers_irrelevant [of w' w]
  show ?thesis
    by (intro conjI parts)
qed

theorem fallback_first_success_witness:
  "generateBookOutline Some demo_calls =
     \<lparr>result = Inr (js ''ok''), invoked = [(Gemini, Completed), (OpenAI, Completed)],
      elapsed = 2010\<rparr> \<and>
   generateChapterContent demo_calls =
     \<lparr>result = Inr (js ''ok''), invoked = [(Gemini, Completed), (OpenAI, Completed)],
      elapsed = 2010\<rparr> \<and>
   generateBookOutline Some (demo_calls\<lparr>callDeepSeek := Settles 1 (Inr (Content (js ''other'')))\<rparr>) =
     generateBookOutline Some demo_calls \<and>
   first_success (\<lambda>p. if p = (0::nat) then Inl () else Inr p) [0, 1, 2] = ([0, 1], Inr 1)"
  using fallback_first_success [of Some demo_calls "js ''ok''" "js ''ok''"
      "\<lambda>p. if p = (0::nat) then Inl () else Inr p" "[0, 1, 2]" 0 1 1 2
      "demo_calls\<lparr>callDeepSeek := Settles 1 (Inr (Content (js ''other'')))\<rparr>"]
  by (simp add: demo_calls_def generateBookOutline_def generateChapterContent_def
      outline_attempt_def chapter_attempt_def outline_outcome_def chapter_outcome_def
      withTimeout_def read_content_def cleanAndParseJSON_def trim_def isWhiteSpace_def js_def)

section \<open>Exhausted providers during chapter generation\<close>

lemma chapter_all_fail:
  assumes "\<forall>p. chapter_outcome w p = Inl ()"
  shows "result (generateChapterContent w) = Inr chapter_failed \<and>
     map fst (invoked (generateChapterContent w)) = priority"
proof -
  have none: "fst (snd (chapter_attempt w p)) = None" for p
    using assms by (auto simp: chapter_outcome_def split: option.splits)
  obtain t1 q1 where a1: "chapter_attempt w Gemini = (t1, None, q1)"
    using none [of Gemini] by (cases "chapter_attempt w Gemini") auto
  obtain t2 q2 where a2: "chapter_attempt w OpenAI = (t2, None, q2)"
    using none [of OpenAI] by (cases "chapter_attempt w OpenAI") auto
  obtain t3 q3 where a3: "chapter_attempt w DeepSeek = (t3, None, q3)"
    using none [of DeepSeek] by (cases "chapter_attempt w DeepSeek") auto
  obtain t4 q4 where a4: "chapter_attempt w Ollama = (t4, None, q4)"
    using none [of Ollama] by (cases "chapter_attempt w Ollama") auto
  show ?thesis
    by (simp add: generateChapterContent_def a1 a2 a3 a4 priority_def)
qed

lemma generation_run:
  assumes "outline st = Some ol" "options st = Some opts"
    and "index (loop_start st r) \<le> length (chapters ol)"
  obtains t thrown where
    "chapter_loop sv ol opts (currentBookId st) (loop_start st r) = (t, thrown)"
    "loop_post sv ol opts (loop_start st r) (t, thrown)"
    "fst (handleStartGeneration sv st r) =
       (case thrown of
          Some e \<Rightarrow> (app t)\<lparr>error := Some (js ''An error occurred during book generation. Partial progress may be lost.''),
                       step := ERROR\<rparr>
        | None \<Rightarrow> (app t)\<lparr>generatedBook := Some
                          \<lparr>title = title ol, description = description ol, subtitle = subtitle ol,
                           backCoverCopy = backCoverCopy ol, chapters = chapters ol,
                           fullChapters = chapters_local t\<rparr>,
                        step := COMPLETED\<rparr>)"
proof -
  obtain t thrown where out:
    "chapter_loop sv ol opts (currentBookId st) (loop_start st r) = (t, thrown)"
    by (cases "chapter_loop sv ol opts (currentBookId st) (loop_start st r)")
  have post: "loop_post sv ol opts (loop_start st r) (t, thrown)"
    using chapter_loop_post [OF assms(3), of sv opts "currentBookId st"] by (simp add: out)
  have "fst (handleStartGeneration sv st r) =
       (case thrown of
          Some e \<Rightarrow> (app t)\<lparr>error := Some (js ''An error occurred during book generation. Partial progress may be lost.''),
                       step := ERROR\<rparr>
        | None \<Rightarrow> (app t)\<lparr>generatedBook := Some
                          \<lparr>title = title ol, description = description ol, subtitle = subtitle ol,
                           backCoverCopy = backCoverCopy ol, chapters = chapters ol,
                           fullChapters = chapters_local t\<rparr>,
                        step := COMPLETED\<rparr>)"
    using assms(1,2) out by (simp add: handleStartGeneration_def split: option.splits)
  with out post show ?thesis by (rule that)
qed

lemma direct_run_completes:
  assumes ol: "outline st = Some ol" and opts: "options st = Some opts"
    and direct: "chapter_service sv = direct_chapter_service calls"
  shows "step (fst (handleStartGeneration sv st False)) = COMPLETED \<and>
     generatedChapters (fst (handleStartGeneration sv st False)) =
       map (chapter_of sv ol opts) [0 ..< length (chapters ol)]"
proof -
  have "index (loop_start st False) \<le> length (chapters ol)"
    by (simp add: loop_start_fields)
  from generation_run [OF ol opts this, of sv] obtain t thrown where
    post: "loop_post sv ol opts (loop_start st False) (t, thrown)" and
    fin: "fst (handleStartGeneration sv st False) =
       (case thrown of
          Some e \<Rightarrow> (app t)\<lparr>error := Some (js ''An error occurred during book generation. Partial progress may be lost.''),
                       step := ERROR\<rparr>
        | None \<Rightarrow> (app t)\<lparr>generatedBook := Some
                          \<lparr>title = title ol, description = description ol, subtitle = subtitle ol,
                           backCoverCopy = backCoverCopy ol, chapters = chapters ol,
                           fullChapters = chapters_local t\<rparr>,
                        step := COMPLETED\<rparr>)"
    by blast
  have none: "thrown = None"
  proof (cases thrown)
    case (Some e)
    with post have "chapter_call sv ol opts (index t) = Inl e"
      by (simp add: loop_post_def)
    with direct_call_never_throws [OF direct, of ol opts "index t"] show ?thesis by simp
  qed simp
  with post have "index t = length (chapters ol)"
    "generatedChapters (app t) = map (chapter_of sv ol opts) [0 ..< index t]"
    by (simp_all add: loop_post_def loop_start_fields)
  with none fin show ?thesis by simp
qed

lemma thrown_run_pauses:
  assumes ol: "outline st = Some ol" and opts: "options st = Some opts"
    and lo: "index (loop_start st r) \<le> k" and hi: "k < length (chapters ol)"
    and ok: "\<forall>i. index (loop_start st r) \<le> i \<and> i < k \<longrightarrow> \<not> isl (chapter_call sv ol opts i)"
    and bad: "chapter_call sv ol opts k = Inl e"
  shows "step (fst (handleStartGeneration sv st r)) = ERROR \<and>
     error (fst (handleStartGeneration sv st r)) \<noteq> None \<and>
     generatedChapters (fst (handleStartGeneration sv st r)) =
       chapters_local (loop_start st r) @
       map (chapter_of sv ol opts) [index (loop_start st r) ..< k] \<and>
     generatedBook (fst (handleStartGeneration sv st r)) = generatedBook st"
proof -
  let ?s0 = "loop_start st r"
  have "index ?s0 \<le> length (chapters ol)" using lo hi by simp
  from generation_run [OF ol opts this, of sv] obtain t thrown where
    post: "loop_post sv ol opts ?s0 (t, thrown)" and
    fin: "fst (handleStartGeneration sv st r) =
       (case thrown of
          Some e \<Rightarrow> (app t)\<lparr>error := Some (js ''An error occurred during book generation. Partial progress may be lost.''),
                       step := ERROR\<rparr>
        | None \<Rightarrow> (app t)\<lparr>generatedBook := Some
                          \<lparr>title = title ol, description = description ol, subtitle = subtitle ol,
                           backCoverCopy = backCoverCopy ol, chapters = chapters ol,
                           fullChapters = chapters_local t\<rparr>,
                        step := COMPLETED\<rparr>)"
    by blast
  from post have range: "\<forall>i. index ?s0 \<le> i \<and> i < index t \<longrightarrow> \<not> isl (chapter_call sv ol opts i)"
    and gen: "generatedChapters (app t) =
        generatedChapters (app ?s0) @ map (chapter_of sv ol opts) [index ?s0 ..< index t]"
    and frame: "(app t)\<lparr>generatedChapters := []\<rparr> = (app ?s0)\<lparr>generatedChapters := []\<rparr>"
    by (simp_all add: loop_post_def)
  have notlt: "\<not> k < index t"
    using range lo bad by auto
  obtain e' where thrown: "thrown = Some e'" and at: "chapter_call sv ol opts (index t) = Inl e'"
  proof (cases thrown)
    case None
    with post have "index t = length (chapters ol)" by (simp add: loop_post_def)
    with notlt hi show ?thesis by simp
  next
    case (Some e')
    with post have "chapter_call sv ol opts (index t) = Inl e'" by (simp add: loop_post_def)
    with Some show ?thesis by (rule that)
  qed
  have "\<not> index t < k"
  proof
    assume "index t < k"
    moreover from post have "index ?s0 \<le> index t" by (simp add: loop_post_def)
    ultimately have "\<not> isl (chapter_call sv ol opts (index t))" using ok by blast
    with at show False by simp
  qed
  with notlt have k: "index t = k" by simp
  have book: "generatedBook (app t) = generatedBook st"
  proof -
    have "generatedBook ((app t)\<lparr>generatedChapters := []\<rparr>) =
          generatedBook ((app ?s0)\<lparr>generatedChapters := []\<rparr>)"
      using frame by simp
    then show ?thesis by (simp add: loop_start_def Let_def)
  qed
  have base: "generatedChapters (app ?s0) = chapters_local ?s0"
    by (simp add: loop_start_fields)
  show ?thesis
    using fin thrown gen k book base by simp
qed

lemma failing_calls_outcomes:
  "chapter_outcome failing_calls p = Inl ()"
  by (cases p)
    (simp_all add: chapter_outcome_def chapter_attempt_def failing_calls_def withTimeout_def)

lemma demo_calls_chapter:
  "result (generateChapterContent demo_calls) = Inr (js ''ok'')"
  by (simp add: generateChapterContent_def chapter_attempt_def demo_calls_def withTimeout_def
      read_content_def)

text \<open>
  The claim as stated fails: with every provider failing for the second chapter of a
  three-chapter book, the chapter operation returns a value, the run completes, and
  the placeholder is stored as the second chapter.
\<close>

theorem chapter_exhaustion_counterexample:
  "map (chapter_outcome failing_calls) priority = [Inl (), Inl (), Inl (), Inl ()] \<and>
   result (generateChapterContent failing_calls) = Inr chapter_failed \<and>
   step (fst (handleStartGeneration failing_services demo_reviewed False)) = COMPLETED \<and>
   generatedChapters (fst (handleStartGeneration failing_services demo_reviewed False)) =
     [\<lparr>title = js ''A'', content = js ''ok''\<rparr>, \<lparr>title = js ''B'', content = chapter_failed\<rparr>,
      \<lparr>title = js ''C'', content = js ''ok''\<rparr>]"
proof -
  have a: "map (chapter_outcome failing_calls) priority = [Inl (), Inl (), Inl (), Inl ()]"
    by (simp add: priority_def failing_calls_outcomes)
  have b: "result (generateChapterContent failing_calls) = Inr chapter_failed"
    using chapter_all_fail [of failing_calls] failing_calls_outcomes by simp
  have ol: "outline demo_reviewed = Some demo_outline"
    and opts: "options demo_reviewed = Some demo_options"
    by (simp_all add: demo_reviewed_def initial_state_def)
  have direct: "chapter_service failing_services =
      direct_chapter_service (\<lambda>i. if i = 1 then failing_calls else demo_calls)"
    by (simp add: failing_services_def demo_services_def)
  have ch: "map (chapter_of failing_services demo_outline demo_options) [0 ..< length (chapters demo_outline)] =
     [\<lparr>title = js ''A'', content = js ''ok''\<rparr>, \<lparr>title = js ''B'', content = chapter_failed\<rparr>,
      \<lparr>title = js ''C'', content = js ''ok''\<rparr>]"
    by (simp add: chapter_of_def chapter_call_def direct direct_chapter_service_def demo_outline_def
        b demo_calls_chapter upt_rec [of 0] upt_rec [of 1] upt_rec [of 2] upt_rec [of "Suc 0"]
        numeral_3_eq_3 numeral_2_eq_2)
  from direct_run_completes [OF ol opts direct] a b ch show ?thesis by simp
qed

text \<open>
  Claim C2, as the code has it. When every provider fails for a chapter,
  \<open>generateChapterContent\<close> throws nothing: after calling all four providers it returns
  the placeholder text, and it never throws at all. A run on this service therefore
  never pauses: it completes with one chapter per outline entry, and a chapter whose
  providers all failed carries the placeholder as its content. A run ends in the error
  state when the chapter call itself throws (as it can with another chapter service):
  then the chapters generated before the failing index are all kept in the component's
  chapter list, no chapter is stored for the failing index, and no book is assembled.
\<close>

theorem chapter_exhaustion_behaviour:
  "((\<forall>p. chapter_outcome w p = Inl ()) \<longrightarrow>
      result (generateChapterContent w) = Inr chapter_failed \<and>
      map fst (invoked (generateChapterContent w)) = priority) \<and>
   \<not> isl (result (generateChapterContent w)) \<and>
   (outline st = Some ol \<and> options st = Some opts \<and>
    chapter_service sv = direct_chapter_service calls \<longrightarrow>
      step (fst (handleStartGeneration sv st False)) = COMPLETED \<and>
      length (generatedChapters (fst (handleStartGeneration sv st False))) = length (chapters ol) \<and>
      (k < length (chapters ol) \<and> (\<forall>p. chapter_outcome (calls k) p = Inl ()) \<longrightarrow>
         generatedChapters (fst (handleStartGeneration sv st False)) ! k =
           \<lparr>title = title (chapters ol ! k), content = chapter_failed\<rparr>)) \<and>
   (outline st = Some ol \<and> options st = Some opts \<and>
    length (if r then generatedChapters st else []) \<le> k \<and> k < length (chapters ol) \<and>
    (\<forall>i. length (if r then generatedChapters st else []) \<le> i \<and> i < k \<longrightarrow>
       \<not> isl (chapter_call sv ol opts i)) \<and>
    chapter_call sv ol opts k = Inl e \<longrightarrow>
      step (fst (handleStartGeneration sv st r)) = ERROR \<and>
      error (fst (handleStartGeneration sv st r)) \<noteq> None \<and>
      generatedChapters (fst (handleStartGeneration sv st r)) =
        (if r then generatedChapters st else []) @
        map (chapter_of sv ol opts) [length (if r then generatedChapters st else []) ..< k] \<and>
      generatedBook (fst (handleStartGeneration sv st r)) = generatedBook st)"
proof -
  have p1: "(\<forall>p. chapter_outcome w p = Inl ()) \<longrightarrow>
      result (generateChapterContent w) = Inr chapter_failed \<and>
      map fst (invoked (generateChapterContent w)) = priority"
    using chapter_all_fail [of w] by blast
  have p3: "outline st = Some ol \<and> options st = Some opts \<and>
    chapter_service sv = direct_chapter_service calls \<longrightarrow>
      step (fst (handleStartGeneration sv st False)) = COMPLETED \<and>
      length (generatedChapters (fst (handleStartGeneration sv st False))) = length (chapters ol) \<and>
      (k < length (chapters ol) \<and> (\<forall>p. chapter_outcome (calls k) p = Inl ()) \<longrightarrow>
         generatedChapters (fst (handleStartGeneration sv st False)) ! k =
           \<lparr>title = title (chapters ol ! k), content = chapter_failed\<rparr>)"
  proof
    assume h: "outline st = Some ol \<and> options st = Some opts \<and>
      chapter_service sv = direct_chapter_service calls"
    then have run: "step (fst (handleStartGeneration sv st False)) = COMPLETED"
      "generatedChapters (fst (handleStartGeneration sv st False)) =
         map (chapter_of sv ol opts) [0 ..< length (chapters ol)]"
      using direct_run_completes [of st ol opts sv calls] by simp_all
    have "generatedChapters (fst (handleStartGeneration sv st False)) ! k =
           \<lparr>title = title (chapters ol ! k), content = chapter_failed\<rparr>"
      if "k < length (chapters ol)" "\<forall>p. chapter_outcome (calls k) p = Inl ()"
    proof -
      have "chapter_call sv ol opts k = Inr chapter_failed"
        using h chapter_all_fail [OF that(2)]
        by (simp add: chapter_call_def direct_chapter_service_def)
      with that(1) show ?thesis by (simp add: run(2) chapter_of_def)
    qed
    with run show "step (fst (handleStartGeneration sv st False)) = COMPLETED \<and>
      length (generatedChapters (fst (handleStartGeneration sv st False))) = length (chapters ol) \<and>
      (k < length (chapters ol) \<and> (\<forall>p. chapter_outcome (calls k) p = Inl ()) \<longrightarrow>
         generatedChapters (fst (handleStartGeneration sv st False)) ! k =
           \<lparr>title = title (chapters ol ! k), content = chapter_failed\<rparr>)"
      by simp
  qed
  have p4: "outline st = Some ol \<and> options st = Some opts \<and>
    length (if r then generatedChapters st else []) \<le> k \<and> k < length (chapters ol) \<and>
    (\<forall>i. length (if r then generatedChapters st else []) \<le> i \<and> i < k \<longrightarrow>
       \<not> isl (chapter_call sv ol opts i)) \<and>
    chapter_call sv ol opts k = Inl e \<longrightarrow>
      step (fst (handleStartGeneration sv st r)) = ERROR \<and>
      error (fst (handleStartGeneration sv st r)) \<noteq> None \<and>
      generatedChapters (fst (handleStartGeneration sv st r)) =
        (if r then generatedChapters st else []) @
        map (chapter_of sv ol opts) [length (if r then generatedChapters st else []) ..< k] \<and>
      generatedBook (fst (handleStartGeneration sv st r)) = generatedBook st"
    using thrown_run_pauses [of st ol opts r k sv e]
    by (cases r) (simp_all add: loop_start_fields)
  from p1 direct_never_throws [of w] p3 p4 show ?thesis by (intro conjI)
qed

theorem chapter_exhaustion_behaviour_witness:
  "result (generateChapterContent failing_calls) = Inr chapter_failed \<and>
   step (fst (handleStartGeneration failing_services demo_reviewed False)) = COMPLETED \<and>
   generatedChapters (fst (handleStartGeneration failing_services demo_reviewed False)) ! 1 =
     \<lparr>title = js ''B'', content = chapter_failed\<rparr> \<and>
   step (fst (handleStartGeneration throwing_services demo_reviewed False)) = ERROR \<and>
   generatedChapters (fst (handleStartGeneration throwing_services demo_reviewed False)) =
     [\<lparr>title = js ''A'', content = js ''# A''\<rparr>]"
  using
    chapter_exhaustion_behaviour [of failing_calls demo_reviewed demo_outline demo_options
      failing_services "\<lambda>i. if i = 1 then failing_calls else demo_calls" 1 False
      "js ''Request failed (500)''"]
    chapter_exhaustion_behaviour [of failing_calls demo_reviewed demo_outline demo_options
      throwing_services "\<lambda>i. demo_calls" 1 False "js ''Request failed (500)''"]
    failing_calls_outcomes
  by (simp add: demo_reviewed_def initial_state_def failing_services_def throwing_services_def
      demo_services_def demo_outline_def chapter_call_def chapter_of_def js_def)

section \<open>The chapter sequence invariant\<close>

lemma returned_append:
  "returned_calls sv ol opts (xs @ ys) = returned_calls sv ol opts xs @ returned_calls sv ol opts ys"
  by (simp add: returned_calls_def requested_append)

lemma returned_nil: "returned_calls sv ol opts [] = []"
  by (simp add: returned_calls_def)

lemma returned_request:
  "returned_calls sv ol opts [RequestChapter i] = (if isl (chapter_call sv ol opts i) then [] else [i])"
  by (simp add: returned_calls_def)

lemma loop_body_sequence:
  assumes inv: "sequence_inv sv ol opts stored s" and lt: "index s < length (chapters ol)"
  shows "sequence_inv sv ol opts stored (fst (loop_body sv ol opts b s))"
proof (cases "chapter_call sv ol opts (index s)")
  case (Inl e)
  have "loop_inv ol (fst (loop_body sv ol opts b s))"
    using inv lt by (simp add: sequence_inv_def loop_body_inv)
  with Inl inv show ?thesis
    by (simp add: sequence_inv_def loop_body_throws returned_append returned_request)
next
  case (Inr c)
  have li: "loop_inv ol (fst (loop_body sv ol opts b s))"
    using inv lt by (simp add: sequence_inv_def loop_body_inv)
  have le: "length stored \<le> index s"
    and ret: "returned_calls sv ol opts (effects s) = [length stored ..< index s]"
    and loc: "chapters_local s = stored @ map (chapter_of sv ol opts) [length stored ..< index s]"
    using inv by (simp_all add: sequence_inv_def)
  have ret': "returned_calls sv ol opts (effects (fst (loop_body sv ol opts b s))) =
      [length stored ..< Suc (index s)]"
    using Inr le ret
    by (simp add: loop_body_returns returned_calls_def requested_append requested_save)
  have loc': "chapters_local (fst (loop_body sv ol opts b s)) =
      stored @ map (chapter_of sv ol opts) [length stored ..< Suc (index s)]"
    using Inr le by (simp add: loop_body_returns loc)
  have idx: "index (fst (loop_body sv ol opts b s)) = Suc (index s)"
    using Inr by (simp add: loop_body_returns)
  from li le show ?thesis
    unfolding sequence_inv_def ret' loc' idx by simp
qed

lemma loop_heads_preserve:
  "\<forall>s. P s \<and> index s < length (chapters ol) \<longrightarrow> P (fst (loop_body sv ol opts b s)) \<Longrightarrow>
   P s \<Longrightarrow> \<forall>x \<in> set (loop_heads sv ol opts b s). P x"
proof (induction sv ol opts b s rule: loop_heads.induct)
  case (1 sv ol opts b s)
  show ?case
  proof (cases "index s < length (chapters ol)")
    case False
    with 1(3) show ?thesis by (subst loop_heads.simps) simp
  next
    case lt: True
    define s' where "s' = fst (loop_body sv ol opts b s)"
    have inv': "P s'"
      unfolding s'_def using 1(2) 1(3) lt by blast
    show ?thesis
    proof (cases "snd (loop_body sv ol opts b s)")
      case None
      then have body: "loop_body sv ol opts b s = (s', None)"
        by (simp add: s'_def prod_eq_iff)
      have "\<forall>x \<in> set (loop_heads sv ol opts b s'). P x"
        using 1(1) [OF lt body [symmetric] refl 1(2) inv'] .
      with 1(3) lt show ?thesis
        by (subst loop_heads.simps) (simp add: body)
    next
      case (Some e)
      then have body: "loop_body sv ol opts b s = (s', Some e)"
        by (simp add: s'_def prod_eq_iff)
      with 1(3) lt inv' show ?thesis
        by (subst loop_heads.simps) (simp add: body)
    qed
  qed
qed

lemma chapter_loop_preserve:
  "\<forall>s. P s \<and> index s < length (chapters ol) \<longrightarrow> P (fst (loop_body sv ol opts b s)) \<Longrightarrow>
   P s \<Longrightarrow> P (fst (chapter_loop sv ol opts b s))"
proof (induction sv ol opts b s rule: chapter_loop.induct)
  case (1 sv ol opts b s)
  show ?case
  proof (cases "index s < length (chapters ol)")
    case False
    with 1(3) show ?thesis by (subst chapter_loop.simps) simp
  next
    case lt: True
    define s' where "s' = fst (loop_body sv ol opts b s)"
    have inv': "P s'"
      unfolding s'_def using 1(2) 1(3) lt by blast
    show ?thesis
    proof (cases "snd (loop_body sv ol opts b s)")
      case None
      then have body: "loop_body sv ol opts b s = (s', None)"
        by (simp add: s'_def prod_eq_iff)
      have "P (fst (chapter_loop sv ol opts b s'))"
        using 1(1) [OF lt body [symmetric] refl 1(2) inv'] .
      with lt show ?thesis
        by (subst chapter_loop.simps) (simp add: body)
    next
      case (Some e)
      then have body: "loop_body sv ol opts b s = (s', Some e)"
        by (simp add: s'_def prod_eq_iff)
      with lt inv' show ?thesis
        by (subst chapter_loop.simps) (simp add: body)
    qed
  qed
qed

lemma sequence_start_fresh: "sequence_inv sv ol opts [] (loop_start st False)"
  by (simp add: sequence_inv_def loop_start_inv_fresh returned_nil)
    (simp add: loop_start_def Let_def returned_nil)

lemma sequence_start_resume:
  "length (generatedChapters st) \<le> length (chapters ol) \<Longrightarrow>
   map title (generatedChapters st) = take (length (generatedChapters st)) (map title (chapters ol)) \<Longrightarrow>
   sequence_inv sv ol opts (generatedChapters st) (loop_start st True)"
  by (simp add: sequence_inv_def loop_start_inv_resume)
    (simp add: loop_start_def Let_def returned_nil)

lemma sequence_entries:
  assumes "sequence_inv sv ol opts stored s"
  shows "length (chapters_local s) = length stored + length (returned_calls sv ol opts (effects s))"
    and "\<forall>k. length stored \<le> k \<and> k < length (chapters_local s) \<longrightarrow>
           chapter_call sv ol opts k = Inr (content (chapters_local s ! k)) \<and>
           title (chapters_local s ! k) = title (chapters ol ! k)"
proof -
  have ret: "returned_calls sv ol opts (effects s) = [length stored ..< index s]"
    and loc: "chapters_local s = stored @ map (chapter_of sv ol opts) [length stored ..< index s]"
    and le: "length stored \<le> index s"
    using assms by (simp_all add: sequence_inv_def)
  show "length (chapters_local s) = length stored + length (returned_calls sv ol opts (effects s))"
    by (simp add: loc ret)
  show "\<forall>k. length stored \<le> k \<and> k < length (chapters_local s) \<longrightarrow>
           chapter_call sv ol opts k = Inr (content (chapters_local s ! k)) \<and>
           title (chapters_local s ! k) = title (chapters ol ! k)"
  proof (intro allI impI)
    fix k
    assume k: "length stored \<le> k \<and> k < length (chapters_local s)"
    then have kr: "k < index s" using le by (simp add: loc)
    with k have "k \<in> set (returned_calls sv ol opts (effects s))" by (simp add: ret)
    then have ok: "\<not> isl (chapter_call sv ol opts k)" by (simp add: returned_calls_def)
    have "k - length stored < index s - length stored" using k kr by arith
    then have "map (chapter_of sv ol opts) [length stored ..< index s] ! (k - length stored) =
        chapter_of sv ol opts k"
      using k by simp
    then have nth: "chapters_local s ! k = chapter_of sv ol opts k"
      using k by (simp add: loc nth_append)
    from ok show "chapter_call sv ol opts k = Inr (content (chapters_local s ! k)) \<and>
           title (chapters_local s ! k) = title (chapters ol ! k)"
      by (cases "chapter_call sv ol opts k") (simp_all add: nth chapter_of_def)
  qed
qed

lemma loop_body_step:
  "index s < length (chapters ol) \<longrightarrow>
     (case loop_body sv ol opts b s of
        (s', None) \<Rightarrow>
          (\<exists>c. chapter_call sv ol opts (index s) = Inr c \<and>
               chapters_local s' =
                 chapters_local s @ [\<lparr>title = title (chapters ol ! index s), content = c\<rparr>]) \<and>
          index s' = Suc (index s)
      | (s', Some e) \<Rightarrow>
          chapter_call sv ol opts (index s) = Inl e \<and> index s' = index s \<and>
          chapters_local s' = chapters_local s)"
  by (cases "chapter_call sv ol opts (index s)")
    (simp_all add: loop_body_throws loop_body_returns chapter_of_def)

text \<open>
  Claim C4, as stated, fails on the multi-provider service: the sequence also counts
  chapters that were not generated. In a run over three chapters in which every provider
  fails for the second one, the chapter operation returns the failure placeholder for
  it, and the sequence ends with three entries, the second holding the placeholder.
\<close>

theorem chapter_sequence_counterexample:
  "map (chapter_outcome failing_calls) priority = [Inl (), Inl (), Inl (), Inl ()] \<and>
   chapter_call failing_services demo_outline demo_options 1 = Inr chapter_failed \<and>
   length (generatedChapters (fst (handleStartGeneration failing_services demo_reviewed False))) = 3 \<and>
   generatedChapters (fst (handleStartGeneration failing_services demo_reviewed False)) ! 1 =
     \<lparr>title = js ''B'', content = chapter_failed\<rparr>"
proof -
  have a: "map (chapter_outcome failing_calls) priority = [Inl (), Inl (), Inl (), Inl ()]"
    by (simp add: priority_def failing_calls_outcomes)
  have b: "result (generateChapterContent failing_calls) = Inr chapter_failed"
    using chapter_all_fail [of failing_calls] failing_calls_outcomes by simp
  have ol: "outline demo_reviewed = Some demo_outline"
    and opts: "options demo_reviewed = Some demo_options"
    by (simp_all add: demo_reviewed_def initial_state_def)
  have direct: "chapter_service failing_services =
      direct_chapter_service (\<lambda>i. if i = 1 then failing_calls else demo_calls)"
    by (simp add: failing_services_def demo_services_def)
  have c: "chapter_call failing_services demo_outline demo_options 1 = Inr chapter_failed"
    by (simp add: chapter_call_def direct direct_chapter_service_def b)
  have ch: "map (chapter_of failing_services demo_outline demo_options) [0 ..< length (chapters demo_outline)] =
     [\<lparr>title = js ''A'', content = js ''ok''\<rparr>, \<lparr>title = js ''B'', content = chapter_failed\<rparr>,
      \<lparr>title = js ''C'', content = js ''ok''\<rparr>]"
    by (simp add: chapter_of_def chapter_call_def direct direct_chapter_service_def demo_outline_def
        b demo_calls_chapter upt_rec [of 0] upt_rec [of 1] upt_rec [of 2] upt_rec [of "Suc 0"]
        numeral_3_eq_3 numeral_2_eq_2)
  from direct_run_completes [OF ol opts direct] a c ch show ?thesis by simp
qed

text \<open>
  Claim C4, as the code has it. Throughout a generation run the chapter sequence
  consists of the chapters stored when the run started followed by one chapter for
  every chapter call that has returned so far, in the order of the calls: its length is
  the number of stored chapters plus the number of returned calls, and the entry at
  index \<open>k\<close> holds the title of the outline's entry \<open>k\<close> and the text the call for \<open>k\<close>
  returned (which is the failure placeholder when every provider failed). Its titles
  are the first titles of the outline, in the outline's order. A pass through the loop
  body appends exactly that chapter and counts it when the call returns, and changes
  neither the sequence nor the counter when the call throws; every pass keeps the
  invariant. It holds when a fresh run starts, and when a run is resumed from a stored
  sequence whose titles are the first titles of the outline; so it holds at every test
  of the loop condition and when the loop is left.
\<close>

theorem chapter_sequence_invariant:
  "(sequence_inv sv ol opts stored s \<and> index s < length (chapters ol) \<longrightarrow>
      sequence_inv sv ol opts stored (fst (loop_body sv ol opts b s))) \<and>
   (index s < length (chapters ol) \<longrightarrow>
      (case loop_body sv ol opts b s of
         (s', None) \<Rightarrow>
           (\<exists>c. chapter_call sv ol opts (index s) = Inr c \<and>
                chapters_local s' =
                  chapters_local s @ [\<lparr>title = title (chapters ol ! index s), content = c\<rparr>]) \<and>
           index s' = Suc (index s)
       | (s', Some e) \<Rightarrow>
           chapter_call sv ol opts (index s) = Inl e \<and> index s' = index s \<and>
           chapters_local s' = chapters_local s)) \<and>
   sequence_inv sv ol opts [] (loop_start st False) \<and>
   (length (generatedChapters st) \<le> length (chapters ol) \<and>
    map title (generatedChapters st) =
      take (length (generatedChapters st)) (map title (chapters ol)) \<longrightarrow>
      sequence_inv sv ol opts (generatedChapters st) (loop_start st True)) \<and>
   (\<forall>x \<in> set (loop_heads sv ol opts b (loop_start st False)). sequence_inv sv ol opts [] x) \<and>
   (sequence_inv sv ol opts stored s \<longrightarrow>
      (\<forall>x \<in> set (loop_heads sv ol opts b s). sequence_inv sv ol opts stored x) \<and>
      sequence_inv sv ol opts stored (fst (chapter_loop sv ol opts b s))) \<and>
   (sequence_inv sv ol opts stored s \<longrightarrow>
      length (chapters_local s) = length stored + length (returned_calls sv ol opts (effects s)) \<and>
      length (chapters_local s) = index s \<and>
      generatedChapters (app s) = chapters_local s \<and>
      map title (chapters_local s) = take (length (chapters_local s)) (map title (chapters ol)) \<and>
      (\<forall>k. length stored \<le> k \<and> k < length (chapters_local s) \<longrightarrow>
         chapter_call sv ol opts k = Inr (content (chapters_local s ! k)) \<and>
         title (chapters_local s ! k) = title (chapters ol ! k)))"
proof -
  have keep: "\<forall>s. sequence_inv sv ol opts xs s \<and> index s < length (chapters ol) \<longrightarrow>
      sequence_inv sv ol opts xs (fst (loop_body sv ol opts b s))" for xs
    by (simp add: loop_body_sequence)
  have p1: "sequence_inv sv ol opts stored s \<and> index s < length (chapters ol) \<longrightarrow>
      sequence_inv sv ol opts stored (fst (loop_body sv ol opts b s))"
    by (simp add: loop_body_sequence)
  have p4: "length (generatedChapters st) \<le> length (chapters ol) \<and>
    map title (generatedChapters st) =
      take (length (generatedChapters st)) (map title (chapters ol)) \<longrightarrow>
      sequence_inv sv ol opts (generatedChapters st) (loop_start st True)"
    by (simp add: sequence_start_resume)
  have p5: "\<forall>x \<in> set (loop_heads sv ol opts b (loop_start st False)). sequence_inv sv ol opts [] x"
    using keep [of "[]"] sequence_start_fresh [of sv ol opts st]
    by (rule loop_heads_preserve)
  have p6: "sequence_inv sv ol opts stored s \<longrightarrow>
      (\<forall>x \<in> set (loop_heads sv ol opts b s). sequence_inv sv ol opts stored x) \<and>
      sequence_inv sv ol opts stored (fst (chapter_loop sv ol opts b s))"
  proof
    assume inv: "sequence_inv sv ol opts stored s"
    have "\<forall>x \<in> set (loop_heads sv ol opts b s). sequence_inv sv ol opts stored x"
      using keep [of stored] inv by (rule loop_heads_preserve)
    moreover have "sequence_inv sv ol opts stored (fst (chapter_loop sv ol opts b s))"
      using keep [of stored] inv by (rule chapter_loop_preserve)
    ultimately show "(\<forall>x \<in> set (loop_heads sv ol opts b s). sequence_inv sv ol opts stored x) \<and>
      sequence_inv sv ol opts stored (fst (chapter_loop sv ol opts b s))" ..
  qed
  have p7: "sequence_inv sv ol opts stored s \<longrightarrow>
      length (chapters_local s) = length stored + length (returned_calls sv ol opts (effects s)) \<and>
      length (chapters_local s) = index s \<and>
      generatedChapters (app s) = chapters_local s \<and>
      map title (chapters_local s) = take (length (chapters_local s)) (map title (chapters ol)) \<and>
      (\<forall>k. length stored \<le> k \<and> k < length (chapters_local s) \<longrightarrow>
         chapter_call sv ol opts k = Inr (content (chapters_local s ! k)) \<and>
         title (chapters_local s ! k) = title (chapters ol ! k))"
  proof
    assume inv: "sequence_inv sv ol opts stored s"
    then have li: "loop_inv ol s" by (simp add: sequence_inv_def)
    from sequence_entries [OF inv] li
    show "length (chapters_local s) = length stored + length (returned_calls sv ol opts (effects s)) \<and>
      length (chapters_local s) = index s \<and>
      generatedChapters (app s) = chapters_local s \<and>
      map title (chapters_local s) = take (length (chapters_local s)) (map title (chapters ol)) \<and>
      (\<forall>k. length stored \<le> k \<and> k < length (chapters_local s) \<longrightarrow>
         chapter_call sv ol opts k = Inr (content (chapters_local s ! k)) \<and>
         title (chapters_local s ! k) = title (chapters ol ! k))"
      by (simp add: loop_inv_def)
  qed
  from p1 loop_body_step [of s ol sv opts b] sequence_start_fresh [of sv ol opts st] p4 p5 p6 p7
  show ?thesis by blast
qed

theorem chapter_sequence_invariant_witness:
  "sequence_inv demo_services demo_outline demo_options
     [\<lparr>title = js ''A'', content = js ''# A''\<rparr>]
     (fst (loop_body demo_services demo_outline demo_options None (loop_start demo_paused True))) \<and>
   sequence_inv failing_services demo_outline demo_options []
     (fst (chapter_loop failing_services demo_outline demo_options None
        (loop_start demo_reviewed False))) \<and>
   length (chapters_local (fst (chapter_loop failing_services demo_outline demo_options None
        (loop_start demo_reviewed False)))) =
     length (returned_calls failing_services demo_outline demo_options
       (effects (fst (chapter_loop failing_services demo_outline demo_options None
          (loop_start demo_reviewed False)))))"
proof -
  have stored: "generatedChapters demo_paused = [\<lparr>title = js ''A'', content = js ''# A''\<rparr>]"
    by (simp add: demo_paused_def initial_state_def)
  have titles: "length (generatedChapters demo_paused) \<le> length (chapters demo_outline) \<and>
      map title (generatedChapters demo_paused) =
        take (length (generatedChapters demo_paused)) (map title (chapters demo_outline))"
    by (simp add: demo_paused_def demo_outline_def initial_state_def)
  have lt: "index (loop_start demo_paused True) < length (chapters demo_outline)"
    by (simp add: loop_start_def demo_paused_def demo_outline_def initial_state_def)
  note resumed = chapter_sequence_invariant [of demo_services demo_outline demo_options
      "generatedChapters demo_paused" "loop_start demo_paused True" None demo_paused]
  note fresh = chapter_sequence_invariant [of failing_services demo_outline demo_options
      "[]" "loop_start demo_reviewed False" None demo_reviewed]
  note final = chapter_sequence_invariant [of failing_services demo_outline demo_options
      "[]" "fst (chapter_loop failing_services demo_outline demo_options None
        (loop_start demo_reviewed False))" None demo_reviewed]
  have a: "sequence_inv demo_services demo_outline demo_options (generatedChapters demo_paused)
     (fst (loop_body demo_services demo_outline demo_options None (loop_start demo_paused True)))"
    using resumed titles lt by blast
  have b: "sequence_inv failing_services demo_outline demo_options []
     (fst (chapter_loop failing_services demo_outline demo_options None
        (loop_start demo_reviewed False)))"
    using fresh by blast
  have c: "length (chapters_local (fst (chapter_loop failing_services demo_outline demo_options None
        (loop_start demo_reviewed False)))) =
     length ([] :: ChapterContent list) + length (returned_calls failing_services demo_outline demo_options
       (effects (fst (chapter_loop failing_services demo_outline demo_options None
          (loop_start demo_reviewed False)))))"
    using final b by blast
  from a b c show ?thesis by (simp add: stored)
qed

section \<open>The cover-image edit operation\<close>

text \<open>
  Claim C10. In each of the three services that define it as a regeneration, the edit
  operation does not look at the image it is given: for every prompt and any two
  images the two edits are the same computation, the one \<open>generateCoverImage\<close> performs
  for that prompt and the size \<open>1K\<close>; in the multi-provider and the OpenAI-only service
  the size is not used either.
\<close>

theorem editCoverImage_ignores_image:
  "editCoverImage w b1 p = editCoverImage w b2 p \<and>
   editCoverImage w b1 p = generateCoverImage w p Size_1K \<and>
   generateCoverImage w p sz = generateCoverImage w p Size_1K \<and>
   editCoverImage_proxy srv b1 p = editCoverImage_proxy srv b2 p \<and>
   editCoverImage_proxy srv b1 p = generateCoverImage_proxy srv p Size_1K \<and>
   editCoverImage_openai call b1 p = editCoverImage_openai call b2 p \<and>
   editCoverImage_openai call b1 p = generateCoverImage_openai call p Size_1K \<and>
   generateCoverImage_openai call p sz = generateCoverImage_openai call p Size_1K"
  by (simp add: editCoverImage_def editCoverImage_proxy_def editCoverImage_openai_def
      generateCoverImage_def generateCoverImage_openai_def)

section \<open>Properties of the e-book package\<close>

declare string_of_nat.simps [simp del]








lemma enumerate_map_fst: "map fst (List.enumerate n xs) = [n ..< n + length xs]"
  by (simp add: enumerate_eq_zip)













section \<open>Properties of the word-processor conversion\<close>

lemma split_on_nonempty: "split_on sep s \<noteq> []"
  by (induction s) (auto split: list.splits)

lemma split_on_one: "sep \<notin> set l \<Longrightarrow> split_on sep l = [l]"
  by (induction l) auto

lemma split_on_line: "sep \<notin> set l \<Longrightarrow> split_on sep (l @ sep # rest) = l # split_on sep rest"
  by (induction l) auto

lemma split_on_join:
  "ls \<noteq> [] \<Longrightarrow> \<forall>l \<in> set ls. sep \<notin> set l \<Longrightarrow> split_on sep (join [sep] ls) = ls"
proof (induction ls)
  case Nil
  then show ?case by simp
next
  case (Cons x xs)
  show ?case
  proof (cases xs)
    case Nil
    with Cons.prems show ?thesis by (simp add: split_on_one)
  next
    case (Cons y ys)
    with Cons.IH Cons.prems have "split_on sep (join [sep] xs) = xs" by simp
    with Cons Cons.prems show ?thesis by (simp add: split_on_line)
  qed
qed

lemma trim_id: "s \<noteq> [] \<Longrightarrow> \<not> isWhiteSpace (hd s) \<Longrightarrow> \<not> isWhiteSpace (last s) \<Longrightarrow> trim s = s"
proof -
  assume s: "s \<noteq> []" and h: "\<not> isWhiteSpace (hd s)" and l: "\<not> isWhiteSpace (last s)"
  have 1: "dropWhile isWhiteSpace s = s"
    using h by (simp add: dropWhile_eq_self_iff)
  have "hd (rev s) = last s" using s by (simp add: hd_rev)
  with l have 2: "dropWhile isWhiteSpace (rev s) = rev s"
    by (simp add: dropWhile_eq_self_iff)
  show ?thesis by (simp add: trim_def 1 2)
qed

lemma prefix_of_longer:
  "prefix d (x @ y) \<Longrightarrow> length d \<le> length x \<Longrightarrow> prefix d x"
  by (metis prefix_length_prefix prefixI)

lemma span_text_tail: "span_text d (c # t) \<Longrightarrow> span_text d t"
  unfolding span_text_def
proof (intro conjI allI impI ballI)
  fix x assume "(\<forall>c\<in>set (c # t). \<not> isLineTerminator c) \<and>
    (\<forall>k<length (c # t). \<not> prefix d (drop k ((c # t) @ d)))" "x \<in> set t"
  then show "\<not> isLineTerminator x" by simp
next
  fix k assume h: "(\<forall>c\<in>set (c # t). \<not> isLineTerminator c) \<and>
    (\<forall>k<length (c # t). \<not> prefix d (drop k ((c # t) @ d)))" and k: "k < length t"
  then have "\<not> prefix d (drop (Suc k) ((c # t) @ d))" by auto
  then show "\<not> prefix d (drop k (t @ d))" by simp
qed

lemma lazy_to_span:
  "d \<noteq> [] \<Longrightarrow> span_text d t \<Longrightarrow> lazy_to d (t @ d @ rest) = Some (t, rest)"
proof (induction t)
  case Nil
  then show ?case by (cases d) simp_all
next
  case (Cons c t)
  have no: "\<not> prefix d ((c # t) @ d @ rest)"
  proof
    assume p: "prefix d ((c # t) @ d @ rest)"
    have "prefix d (((c # t) @ d) @ rest)" using p by simp
    then have "prefix d ((c # t) @ d)" by (rule prefix_of_longer) simp
    moreover from Cons.prems(2) have "\<not> prefix d (drop 0 ((c # t) @ d))"
      unfolding span_text_def by (metis length_greater_0_conv list.simps(3))
    ultimately show False by simp
  qed
  have lt: "\<not> isLineTerminator c"
    using Cons.prems(2) by (simp add: span_text_def)
  have "lazy_to d (t @ d @ rest) = Some (t, rest)"
    using Cons.IH [OF Cons.prems(1) span_text_tail [OF Cons.prems(2)]] .
  with no lt show ?case by simp
qed

lemma delimited_span:
  "d \<noteq> [] \<Longrightarrow> span_text d t \<Longrightarrow> delimited d (d @ t @ d @ rest) = Some (d @ t @ d, rest)"
  by (simp add: delimited_def lazy_to_span)

lemma delimited_other: "s = [] \<or> hd s \<noteq> c \<Longrightarrow> delimited (c # d) s = None"
  by (cases s) (auto simp: delimited_def)

lemma emphasis_match_span:
  assumes "d = [42, 42] \<or> d = [95, 95]" "span_text d t"
  shows "emphasis_match (d @ t @ d @ rest) = Some (d @ t @ d, rest)"
proof -
  from assms(1) show ?thesis
  proof
    assume d: "d = [42, 42]"
    with delimited_span [of d t rest] assms(2) show ?thesis
      by (simp add: emphasis_match_def)
  next
    assume d: "d = [95, 95]"
    have "delimited [42, 42] (d @ t @ d @ rest) = None"
      by (rule delimited_other) (simp add: d)
    with delimited_span [of d t rest] assms(2) d show ?thesis
      by (simp add: emphasis_match_def)
  qed
qed

lemma emphasis_match_plain: "c \<noteq> 42 \<Longrightarrow> c \<noteq> 95 \<Longrightarrow> emphasis_match (c # cs) = None"
  by (simp add: emphasis_match_def delimited_other)

lemma split_emphasis_plain:
  "42 \<notin> set p \<Longrightarrow> 95 \<notin> set p \<Longrightarrow> split_emphasis cur (p @ s) = split_emphasis (cur @ p) s"
  by (induction p arbitrary: cur) (simp_all add: emphasis_match_plain)

lemma split_emphasis_span:
  assumes "d = [42, 42] \<or> d = [95, 95]" "span_text d t"
    and "42 \<notin> set pre" "95 \<notin> set pre" "42 \<notin> set post" "95 \<notin> set post"
  shows "split_emphasis [] (pre @ d @ t @ d @ post) = [pre, d @ t @ d, post]"
proof -
  have "split_emphasis [] (pre @ d @ t @ d @ post) = split_emphasis pre (d @ t @ d @ post)"
    using split_emphasis_plain [OF assms(3,4), of "[]"] by simp
  also obtain c cs where cs: "d @ t @ d @ post = c # cs"
    using assms(1) by (cases "d @ t @ d @ post") auto
  have "split_emphasis pre (d @ t @ d @ post) = pre # (d @ t @ d) # split_emphasis [] post"
    using emphasis_match_span [OF assms(1,2), of post] unfolding cs by simp
  also have "split_emphasis [] post = [post]"
    using split_emphasis_plain [OF assms(5,6), of "[]" "[]"] by simp
  finally show ?thesis .
qed

lemma toTextRun_plain: "42 \<notin> set s \<Longrightarrow> 95 \<notin> set s \<Longrightarrow> toTextRun s = plain_run s"
  by (cases s) (auto simp: toTextRun_def plain_run_def)

lemma toTextRun_bold: "d = [42, 42] \<or> d = [95, 95] \<Longrightarrow> toTextRun (d @ t @ d) = bold_run t"
  by (auto simp: toTextRun_def bold_run_def slice_ends_def suffix_def)

lemma span_text_simple:
  "c \<notin> set t \<Longrightarrow> \<forall>x \<in> set t. \<not> isLineTerminator x \<Longrightarrow> span_text [c, c] t"
  unfolding span_text_def
proof (intro conjI allI impI)
  assume "\<forall>x \<in> set t. \<not> isLineTerminator x"
  then show "\<forall>c\<in>set t. \<not> isLineTerminator c" .
next
  fix k assume c: "c \<notin> set t" and k: "k < length t"
  then have "drop k (t @ [c, c]) = t ! k # drop (Suc k) t @ [c, c]"
    by (simp add: Cons_nth_drop_Suc)
  moreover from c k have "t ! k \<noteq> c" by (metis nth_mem)
  ultimately show "\<not> prefix [c, c] (drop k (t @ [c, c]))" by simp
qed

lemma convert_heading2: "line_text h \<Longrightarrow> convert_line (js ''## '' @ h) = Heading HEADING_2 h"
proof -
  assume h: "line_text h"
  then have "trim (js ''## '' @ h) = js ''## '' @ h"
    by (intro trim_id) (simp_all add: line_text_def js_def isWhiteSpace_def)
  then show ?thesis
    by (simp add: convert_line_def js_def)
qed

lemma convert_bullet: "line_text a \<Longrightarrow> convert_line (js ''- '' @ a) = Bullet 0 a"
proof -
  assume a: "line_text a"
  then have "trim (js ''- '' @ a) = js ''- '' @ a"
    by (intro trim_id) (simp_all add: line_text_def js_def isWhiteSpace_def)
  then show ?thesis
    by (simp add: convert_line_def js_def)
qed

lemma delimiter_not_white: "\<not> isWhiteSpace 42" "\<not> isWhiteSpace 95"
  by (simp_all add: isWhiteSpace_def)

lemma no_marker:
  "c \<noteq> 35 \<Longrightarrow> c \<noteq> 45 \<Longrightarrow> c \<noteq> 42 \<or> (r \<noteq> [] \<and> hd r \<noteq> 32) \<Longrightarrow>
   \<not> prefix (js ''# '') (c # r) \<and> \<not> prefix (js ''## '') (c # r) \<and>
   \<not> prefix (js ''### '') (c # r) \<and> \<not> prefix (js ''- '') (c # r) \<and>
   \<not> prefix (js ''* '') (c # r)"
  by (cases r) (auto simp: js_def)

lemma convert_span_line:
  assumes d: "d = [42, 42] \<or> d = [95, 95]" and t: "span_text d t"
    and pre: "plain_text pre" "leading_text pre" and post: "plain_text post" "trailing_text post"
  shows "convert_line (pre @ d @ t @ d @ post) = Runs [plain_run pre, bold_run t, plain_run post]"
proof -
  let ?line = "pre @ d @ t @ d @ post"
  obtain x where dx: "d = [x, x]" and x: "x = 42 \<or> x = 95"
    using d by blast
  have xw: "\<not> isWhiteSpace x"
    using x delimiter_not_white by blast
  have ne: "?line \<noteq> []" by (simp add: dx)
  have first: "\<not> isWhiteSpace (hd ?line)"
  proof (cases pre)
    case Nil
    with xw show ?thesis by (simp add: dx)
  next
    case (Cons p ps)
    with pre(2) show ?thesis by (simp add: leading_text_def)
  qed
  have final: "\<not> isWhiteSpace (last ?line)"
  proof (cases post rule: rev_cases)
    case Nil
    with xw show ?thesis by (simp add: dx)
  next
    case (snoc ps p)
    with post(2) show ?thesis by (simp add: trailing_text_def dx)
  qed
  have trimmed: "trim ?line = ?line"
    using ne first final by (rule trim_id)
  obtain c r where line: "?line = c # r" and c: "c \<noteq> 35" "c \<noteq> 45"
    "c \<noteq> 42 \<or> (r \<noteq> [] \<and> hd r \<noteq> 32)"
  proof (cases pre)
    case Nil
    have "?line = x # (x # t @ d @ post)" by (simp add: Nil dx)
    moreover have "x \<noteq> 35" "x \<noteq> 45" "x \<noteq> 42 \<or> (x # t @ d @ post \<noteq> [] \<and> hd (x # t @ d @ post) \<noteq> 32)"
      using x by auto
    ultimately show ?thesis by (rule that)
  next
    case (Cons p ps)
    have "?line = p # (ps @ d @ t @ d @ post)" by (simp add: Cons)
    moreover have "p \<noteq> 35" "p \<noteq> 45" "p \<noteq> 42 \<or> (ps @ d @ t @ d @ post \<noteq> [] \<and> hd (ps @ d @ t @ d @ post) \<noteq> 32)"
      using pre Cons by (simp_all add: leading_text_def plain_text_def)
    ultimately show ?thesis by (rule that)
  qed
  have marks: "\<not> prefix (js ''# '') ?line" "\<not> prefix (js ''## '') ?line"
    "\<not> prefix (js ''### '') ?line" "\<not> prefix (js ''- '') ?line" "\<not> prefix (js ''* '') ?line"
    using no_marker [OF c] unfolding line by blast+
  have split: "split_emphasis [] ?line = [pre, d @ t @ d, post]"
    using d t pre(1) post(1) by (intro split_emphasis_span) (simp_all add: plain_text_def)
  have runs: "toTextRun pre = plain_run pre" "toTextRun (d @ t @ d) = bold_run t"
    "toTextRun post = plain_run post"
    using d pre(1) post(1) by (simp_all add: toTextRun_plain toTextRun_bold plain_text_def)
  have "convert_line ?line = Runs (map toTextRun (split_emphasis [] ?line))"
    unfolding convert_line_def trimmed Let_def using ne marks by (simp only: if_False simp_thms)
  then show ?thesis
    by (simp only: split runs list.map)
qed

lemma convert_blank: "\<forall>c \<in> set l. isWhiteSpace c \<Longrightarrow> convert_line l = Plain []"
proof -
  assume "\<forall>c \<in> set l. isWhiteSpace c"
  then have dw: "dropWhile isWhiteSpace l = []" by simp
  have "trim l = []" unfolding trim_def dw by simp
  then show ?thesis by (simp add: convert_line_def)
qed

lemma convert_blank_lines:
  "blank_lines bs \<Longrightarrow> filter (\<lambda>p. p \<noteq> Plain []) (map convert_line bs) = []"
  by (induction bs) (simp_all add: blank_lines_def convert_blank)

lemma blank_lines_no_newline: "blank_lines bs \<Longrightarrow> l \<in> set bs \<Longrightarrow> 10 \<notin> set l"
  by (auto simp: blank_lines_def)

text \<open>
  Claim C7 does not hold of the code. The comments of the converter say that
  \<open>__text__\<close> and \<open>**text**\<close> are supported for bold, but the line is split by one
  regular expression scanned from the left, and a single delimiter earlier in the line
  opens an italic match that takes the opening delimiter of the span with it. The body
  below has one level-2 heading, a paragraph with the bold span \<open>__bold__\<close> and a
  list of two items; the underscore of \<open>my_var\<close> opens an italic match that ends at
  the first underscore of the span, and the paragraph gets three italic runs and no
  bold run.
\<close>

theorem markdown_bold_span_lost:
  "markdownToDocxParagraphs
     (js ''## Intro'' @ [10] @ js ''my_var is __bold__'' @ [10] @ js ''- one'' @ [10] @ js ''- two'') =
     [Heading HEADING_2 (js ''Intro''),
      Runs [\<lparr>run_text = js ''my'', bold = False, italics = False\<rparr>,
            \<lparr>run_text = js ''var is '', bold = False, italics = True\<rparr>,
            \<lparr>run_text = [], bold = False, italics = False\<rparr>,
            \<lparr>run_text = js ''bold'', bold = False, italics = True\<rparr>,
            \<lparr>run_text = [], bold = False, italics = True\<rparr>],
      Bullet 0 (js ''one''), Bullet 0 (js ''two'')]"
  by (simp add: markdownToDocxParagraphs_def convert_line_def js_def trim_def isWhiteSpace_def
      emphasis_match_def delimited_def isLineTerminator_def toTextRun_def slice_ends_def
      suffix_def)

text \<open>
  Where no delimiter stands outside the span, the conversion does what its comments
  say. Take a chapter body made of a level-2 heading line, a line with one bold span
  written with \<open>**\<close> or with \<open>__\<close>, and two list-item lines written with \<open>- \<close>, in
  this order, with any number of blank lines before, between and after them, where the
  text around the span has no \<open>*\<close> and no \<open>_\<close> (and the texts are as described
  above, so that trimming the line takes nothing from them). Its conversion has, apart from the empty paragraphs of the blank lines,
  exactly one heading-2 block with the heading's text, one paragraph block whose runs
  are the text before the span, a bold run with the span's inner text, and the text
  after it, and two list-item blocks with the items' texts, in this order. At the
  span the double-delimiter alternative of the expression matches, so the span is one
  match and one bold run; in particular \<open>**x**\<close> becomes a single bold run \<open>x\<close> and
  no italic run. In general the blocks are the conversions of the lines of the body,
  in the order of the lines.
\<close>

theorem markdown_conversion:
  assumes "d = [42, 42] \<or> d = [95, 95]"
    and "line_text h" "line_text a" "line_text b"
    and "span_text d t"
    and "plain_text pre" "leading_text pre" "plain_text post" "trailing_text post"
    and "blank_lines bs0" "blank_lines bs1" "blank_lines bs2" "blank_lines bs3" "blank_lines bs4"
  shows
   "filter (\<lambda>p. p \<noteq> Plain [])
      (markdownToDocxParagraphs
        (join [10]
          (bs0 @ [js ''## '' @ h] @ bs1 @ [pre @ d @ t @ d @ post] @ bs2 @
           [js ''- '' @ a] @ bs3 @ [js ''- '' @ b] @ bs4))) =
      [Heading HEADING_2 h, Runs [plain_run pre, bold_run t, plain_run post],
       Bullet 0 a, Bullet 0 b] \<and>
    markdownToDocxParagraphs
      (join [10] [js ''## '' @ h, pre @ d @ t @ d @ post, js ''- '' @ a, js ''- '' @ b]) =
      [Heading HEADING_2 h, Runs [plain_run pre, bold_run t, plain_run post],
       Bullet 0 a, Bullet 0 b] \<and>
    emphasis_match (d @ t @ d @ post) = Some (d @ t @ d, post) \<and>
    map toTextRun (split_emphasis [] (js ''**x**'')) =
      [plain_run [], bold_run (js ''x''), plain_run []] \<and>
    (ls \<noteq> [] \<and> (\<forall>l \<in> set ls. 10 \<notin> set l) \<longrightarrow>
       markdownToDocxParagraphs (join [10] ls) = map convert_line ls)"
proof -
  let ?L1 = "js ''## '' @ h" and ?L2 = "pre @ d @ t @ d @ post"
    and ?L3 = "js ''- '' @ a" and ?L4 = "js ''- '' @ b"
  let ?lines = "bs0 @ [?L1] @ bs1 @ [?L2] @ bs2 @ [?L3] @ bs3 @ [?L4] @ bs4"
  have nl4: "10 \<notin> set ?L1" "10 \<notin> set ?L2" "10 \<notin> set ?L3" "10 \<notin> set ?L4"
    using assms(1-9)
    by (auto simp: line_text_def plain_text_def span_text_def isLineTerminator_def js_def)
  have conv: "convert_line ?L1 = Heading HEADING_2 h"
    "convert_line ?L2 = Runs [plain_run pre, bold_run t, plain_run post]"
    "convert_line ?L3 = Bullet 0 a" "convert_line ?L4 = Bullet 0 b"
    using assms(1-9) by (simp_all add: convert_heading2 convert_bullet convert_span_line)
  have 4: "ls \<noteq> [] \<and> (\<forall>l \<in> set ls. 10 \<notin> set l) \<longrightarrow>
       markdownToDocxParagraphs (join [10] ls) = map convert_line ls" for ls
    by (simp add: markdownToDocxParagraphs_def split_on_join)
  have nl: "\<forall>l \<in> set ?lines. 10 \<notin> set l"
    using nl4 assms(10-14) blank_lines_no_newline by auto
  have "markdownToDocxParagraphs (join [10] ?lines) = map convert_line ?lines"
    using 4 [of ?lines] nl by simp
  then have 0: "filter (\<lambda>p. p \<noteq> Plain []) (markdownToDocxParagraphs (join [10] ?lines)) =
      [Heading HEADING_2 h, Runs [plain_run pre, bold_run t, plain_run post],
       Bullet 0 a, Bullet 0 b]"
    using assms(10-14) by (simp add: conv convert_blank_lines del: join.simps)
  have "markdownToDocxParagraphs (join [10] [?L1, ?L2, ?L3, ?L4]) =
      map convert_line [?L1, ?L2, ?L3, ?L4]"
    using 4 [of "[?L1, ?L2, ?L3, ?L4]"] nl4 by simp
  then have 1: "markdownToDocxParagraphs (join [10] [?L1, ?L2, ?L3, ?L4]) =
      [Heading HEADING_2 h, Runs [plain_run pre, bold_run t, plain_run post],
       Bullet 0 a, Bullet 0 b]"
    by (simp add: conv del: join.simps)
  have 2: "emphasis_match (d @ t @ d @ post) = Some (d @ t @ d, post)"
    using assms(1,5) by (rule emphasis_match_span)
  have x: "span_text [42, 42] (js ''x'')"
    by (rule span_text_simple) (simp_all add: js_def isLineTerminator_def)
  have "split_emphasis [] ([] @ [42, 42] @ js ''x'' @ [42, 42] @ []) =
      [[], [42, 42] @ js ''x'' @ [42, 42], []]"
    using x by (intro split_emphasis_span) simp_all
  moreover have "js ''**x**'' = [] @ [42, 42] @ js ''x'' @ [42, 42] @ []"
    by (simp add: js_def)
  ultimately have 3: "map toTextRun (split_emphasis [] (js ''**x**'')) =
      [plain_run [], bold_run (js ''x''), plain_run []]"
    using toTextRun_bold [of "[42, 42]" "js ''x''"] by (simp add: toTextRun_plain)
  from 0 1 2 3 4 [of ls] show ?thesis by (intro conjI)
qed

theorem markdown_conversion_witness:
  "filter (\<lambda>p. p \<noteq> Plain [])
     (markdownToDocxParagraphs
        (js ''## Intro'' @ [10, 10] @ js ''Some __bold__ text'' @ [10, 10] @ js ''- one'' @ [10] @
         js ''- two'' @ [10])) =
     [Heading HEADING_2 (js ''Intro''),
      Runs [plain_run (js ''Some ''), bold_run (js ''bold''), plain_run (js '' text'')],
      Bullet 0 (js ''one''), Bullet 0 (js ''two'')] \<and>
   markdownToDocxParagraphs
     (js ''## Intro'' @ [10] @ js ''**x**'' @ [10] @ js ''- one'' @ [10] @ js ''- two'') =
     [Heading HEADING_2 (js ''Intro''),
      Runs [plain_run [], bold_run (js ''x''), plain_run []],
      Bullet 0 (js ''one''), Bullet 0 (js ''two'')]"
proof -
  have u: "span_text [95, 95] (js ''bold'')" and s: "span_text [42, 42] (js ''x'')"
    by (rule span_text_simple; simp add: js_def isLineTerminator_def)+
  have l: "line_text (js ''Intro'')" "line_text (js ''one'')" "line_text (js ''two'')"
    by (simp_all add: line_text_def js_def isWhiteSpace_def)
  have p: "plain_text (js ''Some '')" "leading_text (js ''Some '')"
    "plain_text (js '' text'')" "trailing_text (js '' text'')"
    "plain_text []" "leading_text []" "trailing_text []"
    by (simp_all add: plain_text_def leading_text_def trailing_text_def js_def isWhiteSpace_def)
  have b: "blank_lines []" "blank_lines [[]]"
    by (simp_all add: blank_lines_def)
  from markdown_conversion [of "[95, 95]" "js ''Intro''" "js ''one''" "js ''two''" "js ''bold''"
      "js ''Some ''" "js '' text''" "[]" "[[]]" "[[]]" "[]" "[[]]",
      OF _ l u p(1-4) b(1) b(2) b(2) b(1) b(2)]
    markdown_conversion [of "[42, 42]" "js ''Intro''" "js ''one''" "js ''two''" "js ''x''"
      "[]" "[]" "[]" "[]" "[]" "[]" "[]", OF _ l s p(5,6,5,7) b(1) b(1) b(1) b(1) b(1)]
  show ?thesis by (simp add: js_def)
qed

section \<open>Deadlines of the provider calls\<close>

lemma withTimeout_bound: "fst (withTimeout call ms) \<le> ms"
  by (simp add: withTimeout_def split: promise.splits)

lemma withTimeout_overdue:
  "overdue call ms \<Longrightarrow> withTimeout call ms = (ms, Inl (timeout_message ms), Running)"
  by (auto simp: withTimeout_def overdue_def split: promise.splits)

lemma withTimeout_never_aborts: "snd (snd (withTimeout call ms)) \<noteq> Aborted"
  by (simp add: withTimeout_def split: promise.splits)

lemma outline_attempt_bound: "fst (outline_attempt parse w p) \<le> outline_deadline p"
proof (cases p)
  case Gemini
  obtain t r q where wt: "withTimeout (callGemini w) 120000 = (t, r, q)"
    by (cases "withTimeout (callGemini w) 120000") auto
  with withTimeout_bound [of "callGemini w" 120000] have "t \<le> 120000" by simp
  with Gemini wt show ?thesis
    by (simp add: outline_attempt_def outline_deadline_def split: sum.splits option.splits)
next
  case OpenAI
  obtain t r q where wt: "withTimeout (callOpenAI w) 45000 = (t, r, q)"
    by (cases "withTimeout (callOpenAI w) 45000") auto
  with withTimeout_bound [of "callOpenAI w" 45000] have "t \<le> 45000" by simp
  with OpenAI wt show ?thesis
    by (simp add: outline_attempt_def outline_deadline_def split: sum.splits)
next
  case DeepSeek
  obtain t r q where wt: "withTimeout (callDeepSeek w) 45000 = (t, r, q)"
    by (cases "withTimeout (callDeepSeek w) 45000") auto
  with withTimeout_bound [of "callDeepSeek w" 45000] have "t \<le> 45000" by simp
  with DeepSeek wt show ?thesis
    by (simp add: outline_attempt_def outline_deadline_def split: sum.splits)
next
  case Ollama
  obtain t r q where wt: "withTimeout (callOllama w) 120000 = (t, r, q)"
    by (cases "withTimeout (callOllama w) 120000") auto
  with withTimeout_bound [of "callOllama w" 120000] have "t \<le> 120000" by simp
  with Ollama wt show ?thesis
    by (simp add: outline_attempt_def outline_deadline_def split: sum.splits)
qed

lemma chapter_attempt_bound: "fst (chapter_attempt w p) \<le> chapter_deadline p"
proof (cases p)
  case Gemini
  obtain t r q where wt: "withTimeout (callGemini w) 120000 = (t, r, q)"
    by (cases "withTimeout (callGemini w) 120000") auto
  with withTimeout_bound [of "callGemini w" 120000] have "t \<le> 120000" by simp
  with Gemini wt show ?thesis
    by (simp add: chapter_attempt_def chapter_deadline_def split: sum.splits option.splits)
next
  case OpenAI
  obtain t r q where wt: "withTimeout (callOpenAI w) 60000 = (t, r, q)"
    by (cases "withTimeout (callOpenAI w) 60000") auto
  with withTimeout_bound [of "callOpenAI w" 60000] have "t \<le> 60000" by simp
  with OpenAI wt show ?thesis
    by (simp add: chapter_attempt_def chapter_deadline_def split: sum.splits)
next
  case DeepSeek
  obtain t r q where wt: "withTimeout (callDeepSeek w) 60000 = (t, r, q)"
    by (cases "withTimeout (callDeepSeek w) 60000") auto
  with withTimeout_bound [of "callDeepSeek w" 60000] have "t \<le> 60000" by simp
  with DeepSeek wt show ?thesis
    by (simp add: chapter_attempt_def chapter_deadline_def split: sum.splits)
next
  case Ollama
  obtain t r q where wt: "withTimeout (callOllama w) 180000 = (t, r, q)"
    by (cases "withTimeout (callOllama w) 180000") auto
  with withTimeout_bound [of "callOllama w" 180000] have "t \<le> 180000" by simp
  with Ollama wt show ?thesis
    by (simp add: chapter_attempt_def chapter_deadline_def split: sum.splits)
qed

lemma outline_attempt_overdue:
  "provider_overdue w p (outline_deadline p) \<Longrightarrow>
   outline_attempt parse w p =
     (outline_deadline p, Inl (timeout_message (outline_deadline p)), Running)"
  by (cases p)
    (simp_all add: provider_overdue_def outline_deadline_def outline_attempt_def
      withTimeout_overdue)

lemma chapter_attempt_overdue:
  "provider_overdue w p (chapter_deadline p) \<Longrightarrow>
   chapter_attempt w p = (chapter_deadline p, None, Running)"
  by (cases p)
    (simp_all add: provider_overdue_def chapter_deadline_def chapter_attempt_def
      withTimeout_overdue)

lemma deadlines_bounded:
  "outline_deadline p \<le> 120000 \<and> chapter_deadline p \<le> 180000"
  by (cases p) (simp_all add: outline_deadline_def chapter_deadline_def)

lemma outline_attempt_never_aborts: "snd (snd (outline_attempt parse w p)) \<noteq> Aborted"
proof (cases p)
  case Gemini
  obtain t r q where wt: "withTimeout (callGemini w) 120000 = (t, r, q)"
    by (cases "withTimeout (callGemini w) 120000") auto
  with withTimeout_never_aborts [of "callGemini w" 120000] have "q \<noteq> Aborted" by simp
  with Gemini wt show ?thesis
    by (simp add: outline_attempt_def split: sum.splits option.splits)
next
  case OpenAI
  obtain t r q where wt: "withTimeout (callOpenAI w) 45000 = (t, r, q)"
    by (cases "withTimeout (callOpenAI w) 45000") auto
  with withTimeout_never_aborts [of "callOpenAI w" 45000] have "q \<noteq> Aborted" by simp
  with OpenAI wt show ?thesis
    by (simp add: outline_attempt_def split: sum.splits)
next
  case DeepSeek
  obtain t r q where wt: "withTimeout (callDeepSeek w) 45000 = (t, r, q)"
    by (cases "withTimeout (callDeepSeek w) 45000") auto
  with withTimeout_never_aborts [of "callDeepSeek w" 45000] have "q \<noteq> Aborted" by simp
  with DeepSeek wt show ?thesis
    by (simp add: outline_attempt_def split: sum.splits)
next
  case Ollama
  obtain t r q where wt: "withTimeout (callOllama w) 120000 = (t, r, q)"
    by (cases "withTimeout (callOllama w) 120000") auto
  with withTimeout_never_aborts [of "callOllama w" 120000] have "q \<noteq> Aborted" by simp
  with Ollama wt show ?thesis
    by (simp add: outline_attempt_def split: sum.splits)
qed

lemma chapter_attempt_never_aborts: "snd (snd (chapter_attempt w p)) \<noteq> Aborted"
proof (cases p)
  case Gemini
  obtain t r q where wt: "withTimeout (callGemini w) 120000 = (t, r, q)"
    by (cases "withTimeout (callGemini w) 120000") auto
  with withTimeout_never_aborts [of "callGemini w" 120000] have "q \<noteq> Aborted" by simp
  with Gemini wt show ?thesis
    by (simp add: chapter_attempt_def split: sum.splits option.splits)
next
  case OpenAI
  obtain t r q where wt: "withTimeout (callOpenAI w) 60000 = (t, r, q)"
    by (cases "withTimeout (callOpenAI w) 60000") auto
  with withTimeout_never_aborts [of "callOpenAI w" 60000] have "q \<noteq> Aborted" by simp
  with OpenAI wt show ?thesis
    by (simp add: chapter_attempt_def split: sum.splits)
next
  case DeepSeek
  obtain t r q where wt: "withTimeout (callDeepSeek w) 60000 = (t, r, q)"
    by (cases "withTimeout (callDeepSeek w) 60000") auto
  with withTimeout_never_aborts [of "callDeepSeek w" 60000] have "q \<noteq> Aborted" by simp
  with DeepSeek wt show ?thesis
    by (simp add: chapter_attempt_def split: sum.splits)
next
  case Ollama
  obtain t r q where wt: "withTimeout (callOllama w) 180000 = (t, r, q)"
    by (cases "withTimeout (callOllama w) 180000") auto
  with withTimeout_never_aborts [of "callOllama w" 180000] have "q \<noteq> Aborted" by simp
  with Ollama wt show ?thesis
    by (simp add: chapter_attempt_def split: sum.splits)
qed

lemma cover_no_deadline:
  "gemini_key b \<and> gemini_image b prompt = Settles t (Inr (Some d)) \<Longrightarrow>
   generateCoverImage b prompt sz =
     Some \<lparr>result = Inr (image_prefix @ d), invoked = [(Gemini, Completed)], elapsed = t\<rparr>"
  by (simp add: generateCoverImage_def await_def)

lemma cover_hangs:
  "gemini_key b \<and> gemini_image b prompt = Pending \<Longrightarrow> generateCoverImage b prompt sz = None"
  by (simp add: generateCoverImage_def await_def)

lemma postJSON_overdue:
  "overdue fetch ms \<Longrightarrow> postJSON fetch ms = (ms, Inl abort_message, Aborted)"
  by (auto simp: postJSON_def overdue_def split: promise.splits sum.splits)

lemma read_json_bound: "t \<le> ms \<Longrightarrow> fst (read_json json t ms) \<le> ms"
  by (simp add: read_json_def split: promise.splits sum.splits)

lemma postJSON_bound: "fst (postJSON fetch ms) \<le> ms"
proof (cases fetch)
  case Pending
  then show ?thesis by (simp add: postJSON_def)
next
  case (Settles t r)
  show ?thesis
  proof (cases r)
    case (Inl e)
    with Settles show ?thesis by (simp add: postJSON_def)
  next
    case (Inr response)
    show ?thesis
    proof (cases "t \<le> ms")
      case True
      obtain t' d q where rj: "read_json (reply_json response) t ms = (t', d, q)"
        by (cases "read_json (reply_json response) t ms") auto
      with read_json_bound [OF True, of "reply_json response"] have "t' \<le> ms" by simp
      with Settles Inr True rj show ?thesis by (simp add: postJSON_def)
    next
      case False
      with Settles Inr show ?thesis by (simp add: postJSON_def)
    qed
  qed
qed

lemma field_of_abort: "field_of (ms, Inl abort_message, Aborted) = (ms, Inl abort_message, Aborted)"
  by (simp add: field_of_def)

lemma hanging_chapter:
  "generateChapterContent hanging_calls =
     \<lparr>result = Inr chapter_failed,
      invoked = [(Gemini, Running), (OpenAI, Running), (DeepSeek, Running), (Ollama, Running)],
      elapsed = 420000\<rparr>"
  by (simp add: generateChapterContent_def chapter_attempt_def hanging_calls_def withTimeout_def)

text \<open>
  Claim C6, as stated, fails on the cited multi-provider service. An image call that
  answers after 500 s is waited for and its image is returned: no deadline of 120 s and
  no timeout error. An image call that never answers is awaited for ever. And where
  there is a deadline, it does not abort: a chapter whose four provider calls never
  settle is given up after 120 + 60 + 60 + 180 s with all four requests still running.
\<close>

theorem deadline_counterexample:
  "generateCoverImage slow_images (js ''a cover'') Size_1K =
     Some \<lparr>result = Inr (image_prefix @ js ''AAAA''), invoked = [(Gemini, Completed)],
           elapsed = 500000\<rparr> \<and>
   generateCoverImage hanging_images (js ''a cover'') Size_1K = None \<and>
   generateChapterContent hanging_calls =
     \<lparr>result = Inr chapter_failed,
      invoked = [(Gemini, Running), (OpenAI, Running), (DeepSeek, Running), (Ollama, Running)],
      elapsed = 420000\<rparr>"
  by (simp add: hanging_chapter generateCoverImage_def await_def slow_images_def
      hanging_images_def)

lemma read_json_late:
  "body_late response t ms \<Longrightarrow>
   read_json (reply_json response) t ms = (ms, empty_payload, Aborted)"
  by (auto simp: body_late_def read_json_def split: promise.splits sum.splits)

lemma read_json_in_time:
  "\<not> body_late response t ms \<Longrightarrow> snd (snd (read_json (reply_json response) t ms)) = Completed"
  by (auto simp: body_late_def read_json_def split: promise.splits sum.splits)

lemma proxy_body_late:
  "fetch = Settles t (Inr response) \<and> t \<le> ms \<and> body_late response t ms \<Longrightarrow>
   field_of (postJSON fetch ms) =
     (ms, (if reply_ok response then Inr None else Inl (request_failed (reply_status response))),
      Aborted)"
  by (simp add: postJSON_def read_json_late field_of_def empty_payload_def request_failed_def)

lemma postJSON_aborted: "snd (snd (postJSON fetch ms)) = Aborted \<longleftrightarrow> unfinished fetch ms"
proof (cases fetch)
  case Pending
  then show ?thesis by (simp add: postJSON_def unfinished_def)
next
  case (Settles t r)
  show ?thesis
  proof (cases r)
    case (Inl e)
    with Settles show ?thesis by (simp add: postJSON_def unfinished_def)
  next
    case (Inr response)
    show ?thesis
    proof (cases "t \<le> ms")
      case False
      with Settles Inr show ?thesis by (simp add: postJSON_def unfinished_def)
    next
      case True
      show ?thesis
      proof (cases "body_late response t ms")
        case late: True
        with Settles Inr True show ?thesis
          by (simp add: postJSON_def unfinished_def read_json_late)
      next
        case False
        obtain t' d q where rj: "read_json (reply_json response) t ms = (t', d, q)"
          by (cases "read_json (reply_json response) t ms") auto
        with read_json_in_time [OF False] have "q = Completed" by simp
        with Settles Inr True False rj show ?thesis
          by (simp add: postJSON_def unfinished_def)
      qed
    qed
  qed
qed

lemma field_of_parts:
  "fst (field_of out) = fst out" "snd (snd (field_of out)) = snd (snd out)"
  by (cases out; simp add: field_of_def split: sum.splits)+

lemma proxy_call:
  "fst (field_of (postJSON fetch ms)) \<le> ms \<and>
   (snd (snd (field_of (postJSON fetch ms))) = Aborted \<longleftrightarrow> unfinished fetch ms) \<and>
   (overdue fetch ms \<longrightarrow> field_of (postJSON fetch ms) = (ms, Inl abort_message, Aborted)) \<and>
   (fetch = Settles t (Inr response) \<and> t \<le> ms \<and> body_late response t ms \<longrightarrow>
      field_of (postJSON fetch ms) =
        (ms, (if reply_ok response then Inr None else Inl (request_failed (reply_status response))),
         Aborted))"
  using postJSON_bound [of fetch ms] postJSON_aborted [of fetch ms] proxy_body_late [of fetch t response ms]
  by (simp add: field_of_parts postJSON_overdue field_of_abort)

lemma cover_openai_cases:
  "(openai_image b prompt = Settles u (Inr (Content d)) \<longrightarrow>
      cover_openai b prompt t called =
        Some \<lparr>result = Inr (image_prefix @ d), invoked = called @ [(OpenAI, Completed)],
              elapsed = t + u\<rparr>) \<and>
   (openai_image b prompt = Pending \<longrightarrow> cover_openai b prompt t called = None)"
  by (simp add: cover_openai_def await_def read_content_def)

lemma cover_falls_through:
  "(if gemini_key b
    then gemini_image b prompt = Settles t (Inl e) \<or> gemini_image b prompt = Settles t (Inr None)
    else t = 0) \<Longrightarrow>
   generateCoverImage b prompt sz =
     cover_openai b prompt t (if gemini_key b then [(Gemini, Completed)] else [])"
  by (auto simp: generateCoverImage_def await_def split: if_splits)

lemma cover_openai_completed:
  "cover_openai b prompt t called = Some r \<Longrightarrow>
   set (invoked r) \<subseteq> set called \<union> {(OpenAI, Completed)} \<and>
   (isl (result r) \<longrightarrow>
      result r = Inl (js ''Failed to generate cover image with all providers.''))"
  by (auto simp: cover_openai_def split: option.splits sum.splits prod.splits)

lemma cover_completed:
  assumes "generateCoverImage b prompt sz = Some r"
  shows "(\<forall>c \<in> set (invoked r). snd c = Completed) \<and>
   (isl (result r) \<longrightarrow>
      result r = Inl (js ''Failed to generate cover image with all providers.''))"
  using assms
  by (auto simp: generateCoverImage_def cover_openai_def await_def
      split: if_splits promise.splits sum.splits option.splits)

lemma outline_never_aborts:
  "\<forall>c \<in> set (invoked (generateBookOutline parse w)). snd c \<noteq> Aborted"
proof -
  obtain t1 r1 q1 where a1: "outline_attempt parse w Gemini = (t1, r1, q1)"
    by (cases "outline_attempt parse w Gemini") auto
  obtain t2 r2 q2 where a2: "outline_attempt parse w OpenAI = (t2, r2, q2)"
    by (cases "outline_attempt parse w OpenAI") auto
  obtain t3 r3 q3 where a3: "outline_attempt parse w DeepSeek = (t3, r3, q3)"
    by (cases "outline_attempt parse w DeepSeek") auto
  obtain t4 r4 q4 where a4: "outline_attempt parse w Ollama = (t4, r4, q4)"
    by (cases "outline_attempt parse w Ollama") auto
  have q: "q1 \<noteq> Aborted" "q2 \<noteq> Aborted" "q3 \<noteq> Aborted" "q4 \<noteq> Aborted"
    using outline_attempt_never_aborts [of parse w Gemini]
      outline_attempt_never_aborts [of parse w OpenAI]
      outline_attempt_never_aborts [of parse w DeepSeek]
      outline_attempt_never_aborts [of parse w Ollama]
    by (simp_all add: a1 a2 a3 a4)
  show ?thesis
    unfolding generateBookOutline_def a1 a2 a3 a4
    using q by (simp split: sum.splits)
qed

lemma chapter_never_aborts:
  "\<forall>c \<in> set (invoked (generateChapterContent w)). snd c \<noteq> Aborted"
proof -
  obtain t1 r1 q1 where a1: "chapter_attempt w Gemini = (t1, r1, q1)"
    by (cases "chapter_attempt w Gemini") auto
  obtain t2 r2 q2 where a2: "chapter_attempt w OpenAI = (t2, r2, q2)"
    by (cases "chapter_attempt w OpenAI") auto
  obtain t3 r3 q3 where a3: "chapter_attempt w DeepSeek = (t3, r3, q3)"
    by (cases "chapter_attempt w DeepSeek") auto
  obtain t4 r4 q4 where a4: "chapter_attempt w Ollama = (t4, r4, q4)"
    by (cases "chapter_attempt w Ollama") auto
  have q: "q1 \<noteq> Aborted" "q2 \<noteq> Aborted" "q3 \<noteq> Aborted" "q4 \<noteq> Aborted"
    using chapter_attempt_never_aborts [of w Gemini]
      chapter_attempt_never_aborts [of w OpenAI]
      chapter_attempt_never_aborts [of w DeepSeek]
      chapter_attempt_never_aborts [of w Ollama]
    by (simp_all add: a1 a2 a3 a4)
  show ?thesis
    unfolding generateChapterContent_def a1 a2 a3 a4
    using q by (simp split: option.splits)
qed

text \<open>
  Claim C6, as the code has it. In the multi-provider service each outline and chapter
  provider call is raced against that provider's deadline, at most 120 s for an outline
  and at most 180 s for a chapter, and the attempt takes no longer than that. A call
  that exceeds its deadline makes the race reject with \<open>Timeout after <ms>ms\<close>: the
  outline attempt fails with that error, the chapter attempt does not return, and in
  both cases the request is left running; no request of an outline or chapter run is
  ever aborted. The cover-image calls of that service, Gemini and then OpenAI, have no
  deadline: an image that arrives is returned however long its call took, a call that
  never settles is awaited for ever, every call of a run that returned has completed,
  and the only error is the fixed failure message, never a timeout. In the
  server-proxied client every operation takes at most its deadline (outline 120 s,
  chapter 180 s, image 120 s) and its request is aborted exactly when it is not
  complete, response and body, by the deadline: when no response has arrived by then
  the operation fails with the abort error; when the response arrived in time and its
  body did not, the operation returns \<open>undefined\<close> for a 2xx status and fails with
  \<open>Request failed (<status>)\<close> otherwise.
\<close>

theorem deadline_behaviour:
  "(fst (outline_attempt parse w p) \<le> outline_deadline p \<and> outline_deadline p \<le> 120000 \<and>
    fst (chapter_attempt w p) \<le> chapter_deadline p \<and> chapter_deadline p \<le> 180000) \<and>
   (overdue call ms \<longrightarrow> withTimeout call ms = (ms, Inl (timeout_message ms), Running)) \<and>
   (provider_overdue w p (outline_deadline p) \<longrightarrow>
      outline_attempt parse w p =
        (outline_deadline p, Inl (timeout_message (outline_deadline p)), Running)) \<and>
   (provider_overdue w p (chapter_deadline p) \<longrightarrow>
      chapter_attempt w p = (chapter_deadline p, None, Running)) \<and>
   snd (snd (outline_attempt parse w p)) \<noteq> Aborted \<and>
   snd (snd (chapter_attempt w p)) \<noteq> Aborted \<and>
   (\<forall>c \<in> set (invoked (generateBookOutline parse w)). snd c \<noteq> Aborted) \<and>
   (\<forall>c \<in> set (invoked (generateChapterContent w)). snd c \<noteq> Aborted) \<and>
   (gemini_key bs \<and> gemini_image bs prompt = Settles t (Inr (Some d)) \<longrightarrow>
      generateCoverImage bs prompt sz =
        Some \<lparr>result = Inr (image_prefix @ d), invoked = [(Gemini, Completed)],
              elapsed = t\<rparr>) \<and>
   (gemini_key bh \<and> gemini_image bh prompt = Pending \<longrightarrow>
      generateCoverImage bh prompt sz = None) \<and>
   ((if gemini_key bo
     then gemini_image bo prompt = Settles t1 (Inl e) \<or> gemini_image bo prompt = Settles t1 (Inr None)
     else t1 = 0) \<longrightarrow>
      (openai_image bo prompt = Settles t2 (Inr (Content d)) \<longrightarrow>
         generateCoverImage bo prompt sz =
           Some \<lparr>result = Inr (image_prefix @ d),
                 invoked = (if gemini_key bo then [(Gemini, Completed)] else []) @
                           [(OpenAI, Completed)],
                 elapsed = t1 + t2\<rparr>) \<and>
      (openai_image bo prompt = Pending \<longrightarrow> generateCoverImage bo prompt sz = None)) \<and>
   (generateCoverImage bs prompt sz = Some r \<longrightarrow>
      (\<forall>c \<in> set (invoked r). snd c = Completed) \<and>
      (isl (result r) \<longrightarrow>
         result r = Inl (js ''Failed to generate cover image with all providers.''))) \<and>
   (fst (generateBookOutline_proxy srv opts) \<le> 120000 \<and>
    (snd (snd (generateBookOutline_proxy srv opts)) = Aborted \<longleftrightarrow>
       unfinished (post_outline srv opts) 120000) \<and>
    (overdue (post_outline srv opts) 120000 \<longrightarrow>
       generateBookOutline_proxy srv opts = (120000, Inl abort_message, Aborted)) \<and>
    (post_outline srv opts = Settles u (Inr ro) \<and> u \<le> 120000 \<and> body_late ro u 120000 \<longrightarrow>
       generateBookOutline_proxy srv opts =
         (120000, (if reply_ok ro then Inr None else Inl (request_failed (reply_status ro))),
          Aborted))) \<and>
   (fst (generateChapterContent_proxy srv opts bookInfo ch i n) \<le> 180000 \<and>
    (snd (snd (generateChapterContent_proxy srv opts bookInfo ch i n)) = Aborted \<longleftrightarrow>
       unfinished (post_chapter srv opts bookInfo ch i n) 180000) \<and>
    (overdue (post_chapter srv opts bookInfo ch i n) 180000 \<longrightarrow>
       generateChapterContent_proxy srv opts bookInfo ch i n =
         (180000, Inl abort_message, Aborted)) \<and>
    (post_chapter srv opts bookInfo ch i n = Settles u (Inr rc) \<and> u \<le> 180000 \<and>
     body_late rc u 180000 \<longrightarrow>
       generateChapterContent_proxy srv opts bookInfo ch i n =
         (180000, (if reply_ok rc then Inr None else Inl (request_failed (reply_status rc))),
          Aborted))) \<and>
   (fst (generateCoverImage_proxy srv prompt sz) \<le> 120000 \<and>
    (snd (snd (generateCoverImage_proxy srv prompt sz)) = Aborted \<longleftrightarrow>
       unfinished (post_cover srv prompt sz) 120000) \<and>
    (overdue (post_cover srv prompt sz) 120000 \<longrightarrow>
       generateCoverImage_proxy srv prompt sz = (120000, Inl abort_message, Aborted)) \<and>
    (post_cover srv prompt sz = Settles u (Inr rc) \<and> u \<le> 120000 \<and> body_late rc u 120000 \<longrightarrow>
       generateCoverImage_proxy srv prompt sz =
         (120000, (if reply_ok rc then Inr None else Inl (request_failed (reply_status rc))),
          Aborted)))"
proof -
  have bounds: "fst (outline_attempt parse w p) \<le> outline_deadline p \<and>
      outline_deadline p \<le> 120000 \<and>
      fst (chapter_attempt w p) \<le> chapter_deadline p \<and> chapter_deadline p \<le> 180000"
    using outline_attempt_bound [of parse w p] chapter_attempt_bound [of w p]
      deadlines_bounded [of p]
    by simp
  have race: "overdue call ms \<longrightarrow>
      withTimeout call ms = (ms, Inl (timeout_message ms), Running)"
    by (simp add: withTimeout_overdue)
  have outline_late: "provider_overdue w p (outline_deadline p) \<longrightarrow>
      outline_attempt parse w p =
        (outline_deadline p, Inl (timeout_message (outline_deadline p)), Running)"
    by (simp add: outline_attempt_overdue)
  have chapter_late: "provider_overdue w p (chapter_deadline p) \<longrightarrow>
      chapter_attempt w p = (chapter_deadline p, None, Running)"
    by (simp add: chapter_attempt_overdue)
  have slow: "gemini_key bs \<and> gemini_image bs prompt = Settles t (Inr (Some d)) \<longrightarrow>
      generateCoverImage bs prompt sz =
        Some \<lparr>result = Inr (image_prefix @ d), invoked = [(Gemini, Completed)],
              elapsed = t\<rparr>"
    using cover_no_deadline [of bs prompt t d sz] by blast
  have hangs: "gemini_key bh \<and> gemini_image bh prompt = Pending \<longrightarrow>
      generateCoverImage bh prompt sz = None"
    using cover_hangs [of bh prompt sz] by blast
  have second: "(if gemini_key bo
     then gemini_image bo prompt = Settles t1 (Inl e) \<or> gemini_image bo prompt = Settles t1 (Inr None)
     else t1 = 0) \<longrightarrow>
      (openai_image bo prompt = Settles t2 (Inr (Content d)) \<longrightarrow>
         generateCoverImage bo prompt sz =
           Some \<lparr>result = Inr (image_prefix @ d),
                 invoked = (if gemini_key bo then [(Gemini, Completed)] else []) @
                           [(OpenAI, Completed)],
                 elapsed = t1 + t2\<rparr>) \<and>
      (openai_image bo prompt = Pending \<longrightarrow> generateCoverImage bo prompt sz = None)"
  proof
    assume g: "if gemini_key bo
     then gemini_image bo prompt = Settles t1 (Inl e) \<or> gemini_image bo prompt = Settles t1 (Inr None)
     else t1 = 0"
    show "(openai_image bo prompt = Settles t2 (Inr (Content d)) \<longrightarrow>
         generateCoverImage bo prompt sz =
           Some \<lparr>result = Inr (image_prefix @ d),
                 invoked = (if gemini_key bo then [(Gemini, Completed)] else []) @
                           [(OpenAI, Completed)],
                 elapsed = t1 + t2\<rparr>) \<and>
      (openai_image bo prompt = Pending \<longrightarrow> generateCoverImage bo prompt sz = None)"
      unfolding cover_falls_through [OF g]
      by (rule cover_openai_cases)
  qed
  have completed: "generateCoverImage bs prompt sz = Some r \<longrightarrow>
      (\<forall>c \<in> set (invoked r). snd c = Completed) \<and>
      (isl (result r) \<longrightarrow>
         result r = Inl (js ''Failed to generate cover image with all providers.''))"
    using cover_completed [of bs prompt sz r] by blast
  note proxy_outline = proxy_call [of "post_outline srv opts" 120000 u ro,
      folded generateBookOutline_proxy_def]
  note proxy_chapter = proxy_call [of "post_chapter srv opts bookInfo ch i n" 180000 u rc,
      folded generateChapterContent_proxy_def]
  note proxy_cover = proxy_call [of "post_cover srv prompt sz" 120000 u rc,
      folded generateCoverImage_proxy_def]
  from bounds race outline_late chapter_late outline_attempt_never_aborts [of parse w p]
    chapter_attempt_never_aborts [of w p] outline_never_aborts [of parse w]
    chapter_never_aborts [of w] slow hangs second completed proxy_outline proxy_chapter
    proxy_cover
  show ?thesis by blast
qed

theorem deadline_behaviour_witness:
  "outline_attempt Some hanging_calls OpenAI = (45000, Inl (timeout_message 45000), Running) \<and>
   chapter_attempt hanging_calls Ollama = (180000, None, Running) \<and>
   generateCoverImage slow_images (js ''a cover'') Size_4K =
     Some \<lparr>result = Inr (js ''data:image/png;base64,AAAA''), invoked = [(Gemini, Completed)],
           elapsed = 500000\<rparr> \<and>
   generateCoverImage hanging_images (js ''a cover'') Size_4K = None \<and>
   generateCoverImage openai_images (js ''a cover'') Size_4K =
     Some \<lparr>result = Inr (js ''data:image/png;base64,BBBB''), invoked = [(OpenAI, Completed)],
           elapsed = 300000\<rparr> \<and>
   generateBookOutline_proxy silent_server demo_options = (120000, Inl abort_message, Aborted) \<and>
   generateChapterContent_proxy silent_server demo_options (js ''T'', js ''S'')
       \<lparr>title = js ''A'', description = js ''a''\<rparr> 0 1 =
     (180000, Inl abort_message, Aborted) \<and>
   generateCoverImage_proxy silent_server (js ''a cover'') Size_4K =
     (120000, Inl abort_message, Aborted) \<and>
   generateBookOutline_proxy stalled_server demo_options = (120000, Inr None, Aborted) \<and>
   generateChapterContent_proxy stalled_server demo_options (js ''T'', js ''S'')
       \<lparr>title = js ''A'', description = js ''a''\<rparr> 0 1 =
     (180000, Inl (request_failed 502), Aborted) \<and>
   generateCoverImage_proxy stalled_server (js ''a cover'') Size_4K = (120000, Inr None, Aborted)"
  using
    deadline_behaviour [where parse = Some and w = hanging_calls and p = OpenAI
      and call = "Pending :: chat_data promise" and ms = 45000
      and bs = slow_images and prompt = "js ''a cover''" and t = 500000 and d = "js ''AAAA''"
      and sz = Size_4K and bh = hanging_images and bo = openai_images and ?t1.0 = 0
      and e = "[]" and ?t2.0 = 300000
      and r = "\<lparr>result = Inr (js ''data:image/png;base64,AAAA''),
               invoked = [(Gemini, Completed)], elapsed = 500000\<rparr>"
      and srv = silent_server and opts = demo_options and u = 50
      and ro = "\<lparr>reply_status = 200, reply_json = Pending\<rparr>"
      and bookInfo = "(js ''T'', js ''S'')"
      and ch = "\<lparr>title = js ''A'', description = js ''a''\<rparr>" and i = 0 and n = 1
      and rc = "\<lparr>reply_status = 502, reply_json = Pending\<rparr>"]
    deadline_behaviour [where parse = Some and w = hanging_calls and p = Ollama
      and call = "Pending :: chat_data promise" and ms = 180000
      and bs = slow_images and prompt = "js ''a cover''" and t = 500000 and d = "js ''BBBB''"
      and sz = Size_4K and bh = hanging_images and bo = openai_images and ?t1.0 = 0
      and e = "[]" and ?t2.0 = 300000
      and r = "\<lparr>result = Inr (js ''data:image/png;base64,AAAA''),
               invoked = [(Gemini, Completed)], elapsed = 500000\<rparr>"
      and srv = stalled_server and opts = demo_options and u = 50
      and ro = "\<lparr>reply_status = 200, reply_json = Pending\<rparr>"
      and bookInfo = "(js ''T'', js ''S'')"
      and ch = "\<lparr>title = js ''A'', description = js ''a''\<rparr>" and i = 0 and n = 1
      and rc = "\<lparr>reply_status = 502, reply_json = Pending\<rparr>"]
    deadline_behaviour [where parse = Some and w = hanging_calls and p = Ollama
      and call = "Pending :: chat_data promise" and ms = 180000
      and bs = slow_images and prompt = "js ''a cover''" and t = 500000 and d = "js ''BBBB''"
      and sz = Size_4K and bh = hanging_images and bo = openai_images and ?t1.0 = 0
      and e = "[]" and ?t2.0 = 300000
      and r = "\<lparr>result = Inr (js ''data:image/png;base64,AAAA''),
               invoked = [(Gemini, Completed)], elapsed = 500000\<rparr>"
      and srv = stalled_server and opts = demo_options and u = 50
      and ro = "\<lparr>reply_status = 200, reply_json = Pending\<rparr>"
      and bookInfo = "(js ''T'', js ''S'')"
      and ch = "\<lparr>title = js ''A'', description = js ''a''\<rparr>" and i = 0 and n = 1
      and rc = "\<lparr>reply_status = 200, reply_json = Pending\<rparr>"]
  by (simp add: overdue_def provider_overdue_def hanging_calls_def slow_images_def
      hanging_images_def openai_images_def silent_server_def stalled_server_def
      outline_deadline_def chapter_deadline_def body_late_def reply_ok_def
      image_prefix_def js_def)

end
